theory Spec2Isabelle
  imports Main "HOL-Library.AList"
begin

section \<open>Data model\<close>

text \<open>
  Host objects are opaque and compared by identity (JavaScript \<open>===\<close>), so each carries the
  number it was allocated with. \<open>XRWebGLLayer\<close> is the legacy single-framebuffer layer and has
  no \<open>destroy\<close> method; the composition layers minted by \<open>XRWebGLBinding\<close> have one.
\<close>

datatype complayer = XRProjectionLayer nat | XRQuadLayer nat

datatype native = XRWebGLLayer nat | XRCompositionLayer complayer

text \<open>The \<open>type\<close> argument of \<open>getLayer\<close>; \<open>TNone\<close> is the tag of the generic \<open>OGLXRLayer\<close> class.\<close>

datatype ltype = TBase | TCube | TQuad | TSphere | TNone

datatype lclass = OGLXRLayer | OGLQuadLayer

datatype error =
    OnlyBaseCanMissOptions
  | Unsupported ltype
  | DisabledXRState
  | NotImplemented
  | TypeError
  | Rejected

text \<open>
  Function objects. \<open>Function.prototype.bind\<close> returns a new function object on every call, so
  a bound function remembers the function it wraps and the allocation number of the bind.
\<close>

datatype fn = OnEnd | OnInputChanged | Bound fn nat

datatype xrevent = XrStart | XrEnd | XrInputSourcesChange

text \<open>The value of a layer's \<open>onLayerDestroy\<close> field: the constructor's empty arrow function or
  the renderer's \<open>_onLayerDestroy\<close>.\<close>

datatype dcb = Noop | RendererOnLayerDestroy

text \<open>The two closures stored in \<open>_clearLoopDel\<close>: \<open>() => window.cancelAnimationFrame(id)\<close> and
  \<open>() => this.session?.cancelAnimationFrame(loopid)\<close>.\<close>

datatype canceller = WindowCanceller nat | SessionCanceller nat

text \<open>
  Application callbacks handed to \<open>XRRenderer.requestAnimationFrame\<close>. A callback has a tag
  (its identity) and a body: it may register further callbacks, cancel registered ones, and
  read \<open>xr.lastXRFrame\<close> (as \<open>renderXR\<close> does on entry).
\<close>

datatype action = Raf cbk | Cancel nat | ReadFrame
  and cbk = Cb nat "action list"

text \<open>What a frame source calls back: the renderer's \<open>_internalLoop\<close> or an application callback
  given to \<open>XRState.requestAnimationFrame\<close> directly.\<close>

datatype frame_cb = InternalLoop | UserFrame cbk

text \<open>Everything the program does to its environment, in the order it does it.\<close>

datatype event =
    Warn string
  | Debug
  | LogError error
  | Reported error
  | UpdateRenderStateLayers nat "native list"
  | UpdateRenderStateBase nat "native option"
  | Destroyed complayer
  | TargetDestroyed nat
  | WindowRequest nat
  | WindowCancel nat
  | SessionRequest nat nat
  | SessionCancel nat nat
  | SessionEndCall nat
  | MakeXRCompatible
  | HostRequestSession
  | HostRequestReferenceSpace nat
  | Invoke nat nat "nat option"
  | Saw "nat option"
  | Dispatch xrevent

text \<open>
  Layer options. A field is \<open>None\<close> when the property is absent from the object;
  \<open>o_stereo\<close> abstracts \<open>layout.includes("stereo")\<close>.
\<close>

record opts =
  o_space :: "nat option option"
  o_viewPixelHeight :: "nat option"
  o_viewPixelWidth :: "nat option"
  o_stereo :: "bool option"

text \<open>An \<open>OGLXRLayer\<close> object. \<open>nativeTransform\<close> is the identity of the \<open>XRRigidTransform\<close>
  object; \<open>children\<close> is the scene-graph child list inherited from \<open>Transform\<close>.\<close>

record layer =
  lclass :: lclass
  options :: opts
  nativeLayer :: "complayer option"
  nativeTransform :: "nat option"
  emulatedLayers :: "nat list option"
  transformDirty :: bool
  onLayerDestroy :: "dcb option"
  children :: "nat list"

text \<open>
  The whole program state: the static \<open>XRState.layersSupport\<close>; the fields of the one
  \<open>XRState\<close> (\<open>xr_layers\<close> is its \<open>layers\<close>, \<open>bound_onEnd\<close> and \<open>bound_onInputChanged\<close> are
  the functions its constructor stores in \<open>this.onEnd\<close> and \<open>this.onInputChanged\<close>); the fields
  of the \<open>XRRenderer\<close> that owns it (\<open>layers\<close> is the registry); the heap of \<open>OGLXRLayer\<close>
  objects with the number of objects constructed; and the host: the allocation counter, the
  pending frame requests of the display and of the sessions, the listeners on the sessions,
  the live immersive session, the sessions whose \<open>end\<close> event is queued, the transform
  assigned to each native layer, and the trace of effects.
\<close>

record world =
  layersSupport :: bool
  session :: "nat option"
  space :: "nat option"
  xr_layers :: "native list"
  baseLayer :: "native option"
  baseLayerTarget :: "nat option"
  lastXRFrame :: "nat option"
  glBinding :: "nat option"
  bound_onEnd :: fn
  bound_onInputChanged :: fn
  layers :: "nat list"
  rafCallbacks :: "(nat \<times> cbk) list"
  calbackID :: nat
  clearLoopDel :: "canceller option"
  heap :: "nat \<Rightarrow> layer"
  fresh :: nat
  winPending :: "nat list"
  sessPending :: "(nat \<times> nat \<times> frame_cb) list"
  listeners :: "(nat \<times> string \<times> fn) list"
  hostLive :: "nat option"
  endQueue :: "nat list"
  objects :: nat
  transformOf :: "complayer \<Rightarrow> nat option"
  trace :: "event list"

section \<open>Exceptions as values\<close>

text \<open>A call returns its value or the exception it threw, together with the state it left.\<close>

type_synonym 'a res = "(error + 'a) \<times> world"

definition ok :: "'a \<Rightarrow> world \<Rightarrow> 'a res" where
  "ok a w = (Inr a, w)"

definition throw :: "error \<Rightarrow> world \<Rightarrow> 'a res" where
  "throw e w = (Inl e, w)"

definition andThen :: "'a res \<Rightarrow> ('a \<Rightarrow> world \<Rightarrow> 'b res) \<Rightarrow> 'b res" where
  "andThen m f = (case m of (Inl e, w) \<Rightarrow> (Inl e, w) | (Inr a, w) \<Rightarrow> f a w)"

primrec forEach :: "('a \<Rightarrow> world \<Rightarrow> unit res) \<Rightarrow> 'a list \<Rightarrow> world \<Rightarrow> unit res" where
  "forEach f [] w = ok () w"
| "forEach f (x # xs) w = andThen (f x w) (\<lambda>u. forEach f xs)"

definition log :: "event \<Rightarrow> world \<Rightarrow> world" where
  "log e w = w\<lparr>trace := trace w @ [e]\<rparr>"

definition upd :: "nat \<Rightarrow> (layer \<Rightarrow> layer) \<Rightarrow> world \<Rightarrow> world" where
  "upd l f w = w\<lparr>heap := (heap w)(l := f (heap w l))\<rparr>"

section \<open>Host constructors\<close>

text \<open>
  The WebXR constructors take a non-nullable \<open>XRSession\<close>: handed \<open>null\<close> they throw a
  \<open>TypeError\<close>. Every new object gets the next allocation number.
\<close>

definition new_XRWebGLLayer :: "world \<Rightarrow> native res" where
  "new_XRWebGLLayer w =
     (case session w of
        None \<Rightarrow> throw TypeError w
      | Some s \<Rightarrow> ok (XRWebGLLayer (fresh w)) (w\<lparr>fresh := Suc (fresh w)\<rparr>))"

definition new_XRWebGLBinding :: "world \<Rightarrow> nat res" where
  "new_XRWebGLBinding w =
     (case session w of
        None \<Rightarrow> throw TypeError w
      | Some s \<Rightarrow> ok (fresh w) (w\<lparr>fresh := Suc (fresh w)\<rparr>))"

definition createProjectionLayer :: "world \<Rightarrow> native res" where
  "createProjectionLayer w =
     ok (XRCompositionLayer (XRProjectionLayer (fresh w))) (w\<lparr>fresh := Suc (fresh w)\<rparr>)"

definition createQuadLayer :: "opts \<Rightarrow> world \<Rightarrow> native res" where
  "createQuadLayer opts w =
     ok (XRCompositionLayer (XRQuadLayer (fresh w))) (w\<lparr>fresh := Suc (fresh w)\<rparr>)"

definition new_XRRenderTarget :: "world \<Rightarrow> nat \<times> world" where
  "new_XRRenderTarget w = (fresh w, w\<lparr>fresh := Suc (fresh w)\<rparr>)"

section \<open>XRState: layers\<close>

definition active :: "world \<Rightarrow> bool" where
  "active w = (session w \<noteq> None)"

definition updateRenderState :: "world \<Rightarrow> unit res" where
  "updateRenderState w =
     (if layersSupport w then
        (case session w of
           None \<Rightarrow> throw TypeError w
         | Some s \<Rightarrow> ok () (log (UpdateRenderStateLayers s (xr_layers w)) w))
      else
        (case session w of
           None \<Rightarrow> throw TypeError w
         | Some s \<Rightarrow> ok () (log (UpdateRenderStateBase s (baseLayer w)) w)))"

definition xr_onLayerDestroy :: "native \<Rightarrow> world \<Rightarrow> unit res" where
  "xr_onLayerDestroy layer w =
     (if \<not> layersSupport w \<or> session w = None then ok () w
      else updateRenderState (w\<lparr>xr_layers := filter (\<lambda>l. l \<noteq> layer) (xr_layers w)\<rparr>))"

definition defaults :: "world \<Rightarrow> opts" where
  "defaults w =
     \<lparr>o_space = Some (space w), o_viewPixelHeight = Some 100, o_viewPixelWidth = Some 100,
      o_stereo = None\<rparr>"

text \<open>\<open>Object.assign({}, d, x)\<close>: every property present in \<open>x\<close> overrides the one of \<open>d\<close>.\<close>

definition assign :: "opts \<Rightarrow> opts \<Rightarrow> opts" where
  "assign d x =
     \<lparr>o_space = (case o_space x of None \<Rightarrow> o_space d | Some v \<Rightarrow> Some v),
      o_viewPixelHeight = (case o_viewPixelHeight x of None \<Rightarrow> o_viewPixelHeight d | Some v \<Rightarrow> Some v),
      o_viewPixelWidth = (case o_viewPixelWidth x of None \<Rightarrow> o_viewPixelWidth d | Some v \<Rightarrow> Some v),
      o_stereo = (case o_stereo x of None \<Rightarrow> o_stereo d | Some v \<Rightarrow> Some v)\<rparr>"

text \<open>
  \<open>XRState.getLayer(gl, type, options)\<close>. \<open>options0 = None\<close> is the omitted \<open>options\<close> argument. The result
  \<open>None\<close> is the \<open>null\<close> returned after the warning.
\<close>

definition getLayer :: "ltype \<Rightarrow> opts option \<Rightarrow> world \<Rightarrow> native option res" where
  "getLayer type options0 w =
     (let options1 = (case options0 of None \<Rightarrow> defaults w | Some x \<Rightarrow> x);
          options2 = Some (assign (defaults w) options1)
      in if \<not> layersSupport w \<and> (type \<noteq> TBase \<or> length (xr_layers w) > 1) then
           ok None (log (Warn ''[XR] Only single base layer is supported!'') w)
         else
           andThen
             (if \<not> layersSupport w then
                andThen (new_XRWebGLLayer w) (\<lambda>layer w1. ok layer (w1\<lparr>baseLayer := Some layer\<rparr>))
              else
                (case options2 of
                   None \<Rightarrow> throw OnlyBaseCanMissOptions w
                 | Some opts \<Rightarrow>
                     andThen
                       (case glBinding w of Some b \<Rightarrow> ok b w | None \<Rightarrow> new_XRWebGLBinding w)
                       (\<lambda>b w1.
                          let w2 = w1\<lparr>glBinding := Some b\<rparr>
                          in (case type of
                                TBase \<Rightarrow>
                                  andThen (createProjectionLayer w2)
                                    (\<lambda>layer w3.
                                       let w4 = w3\<lparr>baseLayer := Some layer\<rparr>;
                                           (t, w5) = new_XRRenderTarget w4
                                       in ok layer (log Debug (w5\<lparr>baseLayerTarget := Some t\<rparr>)))
                              | TQuad \<Rightarrow> createQuadLayer opts w2
                              | _ \<Rightarrow> throw (Unsupported type) w2))))
             (\<lambda>layer w1.
                andThen (updateRenderState (w1\<lparr>xr_layers := layer # xr_layers w1\<rparr>))
                  (\<lambda>u w2. ok (Some layer) w2)))"

section \<open>OGLXRLayer\<close>

definition isNative :: "layer \<Rightarrow> bool" where
  "isNative L = (nativeLayer L \<noteq> None \<and> emulatedLayers L = None)"

text \<open>\<open>OGLXRLayer._updateNative\<close>: a new \<open>XRRigidTransform\<close> object when the guard lets it.\<close>

definition super_updateNative :: "nat \<Rightarrow> world \<Rightarrow> world" where
  "super_updateNative l w =
     (if transformDirty (heap w l) \<or> nativeTransform (heap w l) = None then
        upd l (\<lambda>L. L\<lparr>nativeTransform := Some (fresh w)\<rparr>) (w\<lparr>fresh := Suc (fresh w)\<rparr>)
      else w)"

text \<open>Dynamic dispatch on the class: \<open>OGLQuadLayer\<close> overrides \<open>_updateNative\<close> and assigns the
  transform to the native layer (a \<open>TypeError\<close> when there is none).\<close>

definition updateNative :: "nat \<Rightarrow> world \<Rightarrow> unit res" where
  "updateNative l w =
     (case lclass (heap w l) of
        OGLXRLayer \<Rightarrow> ok () (super_updateNative l w)
      | OGLQuadLayer \<Rightarrow>
          (let w1 = super_updateNative l w
           in case nativeLayer (heap w1 l) of
                None \<Rightarrow> throw TypeError w1
              | Some n \<Rightarrow> ok () (w1\<lparr>transformOf := (transformOf w1)(n := nativeTransform (heap w1 l))\<rparr>)))"

definition layer_update :: "nat \<Rightarrow> world \<Rightarrow> unit res" where
  "layer_update l w =
     (case nativeLayer (heap w l) of
        Some n \<Rightarrow> updateNative l w
      | None \<Rightarrow> ok () w)"

definition needUpdateTransform :: "nat \<Rightarrow> world \<Rightarrow> world" where
  "needUpdateTransform l w = upd l (\<lambda>L. L\<lparr>transformDirty := True\<rparr>) w"

definition destroyNative :: "nat \<Rightarrow> world \<Rightarrow> world" where
  "destroyNative l w =
     (let w1 = (case nativeLayer (heap w l) of
                  Some n \<Rightarrow> log (Destroyed n) w
                | None \<Rightarrow> w)
      in upd l (\<lambda>L. L\<lparr>nativeLayer := None, nativeTransform := None\<rparr>) w1)"

text \<open>\<open>_createFallbackLayers\<close>: not implemented in the generic class; one \<open>QuadPrimitive\<close>, or
  two for a stereo layout, in \<open>OGLQuadLayer\<close>.\<close>

definition createFallbackLayers :: "nat \<Rightarrow> world \<Rightarrow> nat list res" where
  "createFallbackLayers l w =
     (case lclass (heap w l) of
        OGLXRLayer \<Rightarrow> throw NotImplemented w
      | OGLQuadLayer \<Rightarrow>
          (if o_stereo (options (heap w l)) = Some True then
             ok [fresh w, Suc (fresh w)] (w\<lparr>fresh := Suc (Suc (fresh w))\<rparr>)
           else ok [fresh w] (w\<lparr>fresh := Suc (fresh w)\<rparr>)))"

text \<open>\<open>Transform.addChild\<close> and \<open>removeChild\<close> of the scene-graph library.\<close>

definition addChild :: "nat list \<Rightarrow> nat \<Rightarrow> nat list" where
  "addChild cs c = (if c \<in> set cs then cs else cs @ [c])"

definition removeChild :: "nat list \<Rightarrow> nat \<Rightarrow> nat list" where
  "removeChild cs c = remove1 c cs"

definition createFallback :: "nat \<Rightarrow> world \<Rightarrow> unit res" where
  "createFallback l w =
     (case emulatedLayers (heap w l) of
        Some ms \<Rightarrow> ok () w
      | None \<Rightarrow>
          andThen (createFallbackLayers l w)
            (\<lambda>ms w1. ok () (upd l (\<lambda>L. L\<lparr>emulatedLayers := Some ms,
                                         children := foldl addChild (children L) ms\<rparr>) w1)))"

definition destroyFallback :: "nat \<Rightarrow> world \<Rightarrow> world" where
  "destroyFallback l w =
     (case emulatedLayers (heap w l) of
        None \<Rightarrow> w
      | Some ms \<Rightarrow>
          upd l (\<lambda>L. L\<lparr>children := foldl removeChild (children L) ms,
                       emulatedLayers := None\<rparr>) w)"

text \<open>\<open>XRRenderer._onLayerDestroy\<close>, the callback the renderer installs in a registered layer.\<close>

definition onLayerDestroy_r :: "nat \<Rightarrow> bool \<Rightarrow> world \<Rightarrow> unit res" where
  "onLayerDestroy_r layer nativeOnly w =
     (let w1 = (if \<not> nativeOnly then w\<lparr>layers := filter (\<lambda>e. layer \<noteq> e) (layers w)\<rparr> else w)
      in case nativeLayer (heap w1 layer) of
           Some n \<Rightarrow> xr_onLayerDestroy (XRCompositionLayer n) w1
         | None \<Rightarrow> ok () w1)"

text \<open>\<open>this.onLayerDestroy?.(this, nativeOnly)\<close>.\<close>

definition call_onLayerDestroy :: "nat \<Rightarrow> bool \<Rightarrow> world \<Rightarrow> unit res" where
  "call_onLayerDestroy l nativeOnly w =
     (case onLayerDestroy (heap w l) of
        None \<Rightarrow> ok () w
      | Some Noop \<Rightarrow> ok () w
      | Some RendererOnLayerDestroy \<Rightarrow> onLayerDestroy_r l nativeOnly w)"

definition bindLayer :: "nat \<Rightarrow> complayer option \<Rightarrow> world \<Rightarrow> unit res" where
  "bindLayer l layer w =
     andThen
       (case nativeLayer (heap w l) of
          Some n \<Rightarrow>
            if Some n \<noteq> layer then
              andThen (call_onLayerDestroy l True w) (\<lambda>u w1. ok () (destroyNative l w1))
            else ok () w
        | None \<Rightarrow> ok () w)
       (\<lambda>u w1.
          case layer of
            Some n \<Rightarrow> updateNative l (upd l (\<lambda>L. L\<lparr>nativeLayer := Some n\<rparr>) (destroyFallback l w1))
          | None \<Rightarrow> createFallback l w1)"

definition layer_destroy :: "nat \<Rightarrow> world \<Rightarrow> unit res" where
  "layer_destroy l w =
     andThen (call_onLayerDestroy l False w) (\<lambda>u w1. ok () (destroyNative l w1))"

text \<open>The constructors: \<open>new OGLXRLayer(context, options)\<close> and \<open>new OGLQuadLayer(...)\<close>.\<close>

definition new_layer :: "lclass \<Rightarrow> opts \<Rightarrow> world \<Rightarrow> nat \<times> world" where
  "new_layer c opt w =
     (objects w,
      w\<lparr>objects := Suc (objects w),
        heap := (heap w)(objects w :=
          \<lparr>lclass = c, options = opt, nativeLayer = None, nativeTransform = None,
           emulatedLayers = None, transformDirty = True, onLayerDestroy = Some Noop,
           children = []\<rparr>)\<rparr>)"

section \<open>XRState: frames and teardown\<close>

definition xr_requestAnimationFrame :: "frame_cb \<Rightarrow> world \<Rightarrow> canceller res" where
  "xr_requestAnimationFrame callback w =
     (case session w of
        None \<Rightarrow> throw DisabledXRState w
      | Some s \<Rightarrow>
          (let loopid = fresh w
           in ok (SessionCanceller loopid)
                (log (SessionRequest s loopid)
                   (w\<lparr>fresh := Suc loopid,
                      sessPending := sessPending w @ [(s, loopid, callback)]\<rparr>))))"

text \<open>Calling a stored cancellation closure. The session closure reads \<open>this.session\<close> when it
  is called and does nothing when that is \<open>null\<close>.\<close>

definition run_canceller :: "canceller \<Rightarrow> world \<Rightarrow> world" where
  "run_canceller c w =
     (case c of
        WindowCanceller i \<Rightarrow>
          log (WindowCancel i) (w\<lparr>winPending := filter (\<lambda>j. j \<noteq> i) (winPending w)\<rparr>)
      | SessionCanceller loopid \<Rightarrow>
          (case session w of
             None \<Rightarrow> w
           | Some s \<Rightarrow>
               log (SessionCancel s loopid)
                 (w\<lparr>sessPending :=
                      filter (\<lambda>p. \<not> (fst p = s \<and> fst (snd p) = loopid)) (sessPending w)\<rparr>)))"

text \<open>DOM \<open>EventTarget\<close> on a session: a listener is identified by event type and function
  object.\<close>

definition addEventListener :: "nat \<Rightarrow> string \<Rightarrow> fn \<Rightarrow> world \<Rightarrow> world" where
  "addEventListener s ty f w =
     (if (s, ty, f) \<in> set (listeners w) then w
      else w\<lparr>listeners := listeners w @ [(s, ty, f)]\<rparr>)"

definition removeEventListener :: "nat \<Rightarrow> string \<Rightarrow> fn \<Rightarrow> world \<Rightarrow> world" where
  "removeEventListener s ty f w = w\<lparr>listeners := filter (\<lambda>x. x \<noteq> (s, ty, f)) (listeners w)\<rparr>"

definition bind_fn :: "fn \<Rightarrow> world \<Rightarrow> fn \<times> world" where
  "bind_fn f w = (Bound f (fresh w), w\<lparr>fresh := Suc (fresh w)\<rparr>)"

text \<open>\<open>layer.destroy && layer.destroy()\<close>: only composition layers have the method.\<close>

definition destroy_opt :: "native \<Rightarrow> world \<Rightarrow> world" where
  "destroy_opt layer w =
     (case layer of
        XRCompositionLayer c \<Rightarrow> log (Destroyed c) w
      | XRWebGLLayer n \<Rightarrow> w)"

definition clear :: "world \<Rightarrow> world" where
  "clear w =
     (case session w of
        None \<Rightarrow> w
      | Some s \<Rightarrow>
          (let w1 = removeEventListener s ''end'' (bound_onEnd w) w;
               w2 = removeEventListener s ''inputsourceschange'' (bound_onInputChanged w1) w1;
               w3 = foldl (\<lambda>v layer. destroy_opt layer v) w2 (xr_layers w2);
               w4 = w3\<lparr>xr_layers := [], session := None, space := None\<rparr>;
               w5 = (case baseLayerTarget w4 of
                       None \<Rightarrow> w4
                     | Some t \<Rightarrow> log (TargetDestroyed t) w4);
               w6 = (case baseLayer w5 of
                       None \<Rightarrow> w5
                     | Some b \<Rightarrow> destroy_opt b w5)
           in w6\<lparr>baseLayerTarget := None, baseLayer := None, glBinding := None\<rparr>))"

section \<open>XRRenderer: the loop\<close>

definition clearLoop :: "world \<Rightarrow> world" where
  "clearLoop w =
     (case clearLoopDel w of
        Some c \<Rightarrow> run_canceller c w
      | None \<Rightarrow> w)\<lparr>clearLoopDel := None\<rparr>"

definition attachLoop :: "world \<Rightarrow> unit res" where
  "attachLoop w =
     (let w1 = clearLoop w
      in if active w1 then
           andThen (xr_requestAnimationFrame InternalLoop w1)
             (\<lambda>c w2. ok () (w2\<lparr>clearLoopDel := Some c\<rparr>))
         else
           (let i = fresh w1
            in ok () (log (WindowRequest i)
                        (w1\<lparr>fresh := Suc i, winPending := winPending w1 @ [i],
                           clearLoopDel := Some (WindowCanceller i)\<rparr>))))"

text \<open>\<open>_rafCallbacks\<close> is a \<open>Map\<close>: insertion-ordered, \<open>set\<close> on a present key keeps its place.\<close>

definition requestAnimationFrame :: "cbk \<Rightarrow> world \<Rightarrow> nat res" where
  "requestAnimationFrame callback w =
     (let i = calbackID w;
          w1 = w\<lparr>calbackID := Suc i, rafCallbacks := AList.update i callback (rafCallbacks w)\<rparr>
      in andThen (if clearLoopDel w1 = None then attachLoop w1 else ok () w1)
           (\<lambda>u w2. ok i w2))"

definition cancelAnimationFrame :: "nat \<Rightarrow> world \<Rightarrow> world" where
  "cancelAnimationFrame i w = w\<lparr>rafCallbacks := AList.delete i (rafCallbacks w)\<rparr>"

definition run_action :: "action \<Rightarrow> world \<Rightarrow> unit res" where
  "run_action a w =
     (case a of
        Raf c \<Rightarrow> andThen (requestAnimationFrame c w) (\<lambda>i. ok ())
      | Cancel i \<Rightarrow> ok () (cancelAnimationFrame i w)
      | ReadFrame \<Rightarrow> ok () (log (Saw (lastXRFrame w)) w))"

definition call_cbk :: "cbk \<Rightarrow> nat \<Rightarrow> nat option \<Rightarrow> world \<Rightarrow> unit res" where
  "call_cbk c time frame w =
     (case c of Cb tag body \<Rightarrow> forEach run_action body (log (Invoke tag time frame) w))"

definition internalLoop :: "nat \<Rightarrow> nat option \<Rightarrow> world \<Rightarrow> unit res" where
  "internalLoop time frame w =
     (let callbacks = map snd (rafCallbacks w);
          w1 = w\<lparr>rafCallbacks := []\<rparr>
      in andThen (forEach (\<lambda>c. call_cbk c time frame) callbacks w1) (\<lambda>u. attachLoop))"

definition call_frame_cb :: "frame_cb \<Rightarrow> nat \<Rightarrow> nat option \<Rightarrow> world \<Rightarrow> unit res" where
  "call_frame_cb callback time frame w =
     (case callback of
        InternalLoop \<Rightarrow> internalLoop time frame w
      | UserFrame c \<Rightarrow> call_cbk c time frame w)"

text \<open>The arrow function \<open>XRState.requestAnimationFrame\<close> hands to the session.\<close>

definition xr_frame_wrapper :: "frame_cb \<Rightarrow> nat \<Rightarrow> nat \<Rightarrow> world \<Rightarrow> unit res" where
  "xr_frame_wrapper callback time frame w =
     andThen (call_frame_cb callback time (Some frame) (w\<lparr>lastXRFrame := Some frame\<rparr>))
       (\<lambda>u w1. ok () (w1\<lparr>lastXRFrame := None\<rparr>))"

section \<open>XRRenderer: the layer registry\<close>

definition classType :: "lclass \<Rightarrow> ltype" where
  "classType c = (case c of OGLXRLayer \<Rightarrow> TNone | OGLQuadLayer \<Rightarrow> TQuad)"

text \<open>The cast \<open>as XRCompositionLayer\<close> of what \<open>getLayer\<close> returned. With layer support
  \<open>getLayer\<close> mints composition layers only, so the second case is never taken.\<close>

definition as_XRCompositionLayer :: "native option \<Rightarrow> complayer option" where
  "as_XRCompositionLayer r =
     (case r of
        Some (XRCompositionLayer c) \<Rightarrow> Some c
      | Some (XRWebGLLayer n) \<Rightarrow> None
      | None \<Rightarrow> None)"

definition bindNativeLayerTo :: "nat \<Rightarrow> world \<Rightarrow> bool res" where
  "bindNativeLayerTo l w =
     (let (nativeLayer0, w3) =
            (if layersSupport w then
               (let w1 = upd l (\<lambda>L. L\<lparr>options := (options L)\<lparr>o_space := Some (space w)\<rparr>\<rparr>) w
                in case getLayer (classType (lclass (heap w1 l))) (Some (options (heap w1 l))) w1 of
                     (Inr r, w2) \<Rightarrow> (r, w2)
                   | (Inl e, w2) \<Rightarrow> (None, log (LogError e) w2))
             else (None, w))
      in andThen (bindLayer l (as_XRCompositionLayer nativeLayer0) w3)
           (\<lambda>u. ok (nativeLayer0 \<noteq> None)))"

definition registerLayer :: "nat \<Rightarrow> world \<Rightarrow> nat res" where
  "registerLayer l w =
     (let w1 = (if l \<in> set (layers w) then w\<lparr>layers := remove1 l (layers w)\<rparr> else w)
      in andThen (bindNativeLayerTo l w1)
           (\<lambda>b w2.
              let w3 = upd l (\<lambda>L. L\<lparr>onLayerDestroy := Some RendererOnLayerDestroy\<rparr>) w2;
                  w4 = w3\<lparr>layers := l # layers w3\<rparr>
              in ok (length (layers w4)) w4))"

definition onSessionLost :: "world \<Rightarrow> unit res" where
  "onSessionLost w =
     (let w1 = clearLoop w
      in andThen (forEach (\<lambda>l. bindLayer l None) (layers w1) w1)
           (\<lambda>u w2. andThen (attachLoop w2)
              (\<lambda>u w3. ok () (log (Warn ''XR Session end'') w3))))"

definition onSessionStart :: "world \<Rightarrow> unit res" where
  "onSessionStart w =
     andThen (attachLoop w)
       (\<lambda>u w1. andThen (getLayer TBase None w1)
          (\<lambda>r w2. forEach (\<lambda>l v. andThen (bindNativeLayerTo l v) (\<lambda>b. ok ())) (layers w2) w2))"

section \<open>XRState: events and session lifecycle\<close>

text \<open>An exception that escapes an event listener or a frame callback is reported by the
  host and goes no further.\<close>

definition report :: "unit res \<Rightarrow> world" where
  "report r = (case r of (Inl e, w) \<Rightarrow> log (Reported e) w | (Inr u, w) \<Rightarrow> w)"

text \<open>\<open>XRState.dispatchEvent\<close>: the renderer's constructor listens to \<open>xrend\<close> with
  \<open>onSessionLost\<close> and to \<open>xrstart\<close> with \<open>onSessionStart\<close>.\<close>

definition dispatchEvent :: "xrevent \<Rightarrow> world \<Rightarrow> world" where
  "dispatchEvent e w =
     (let w1 = log (Dispatch e) w
      in case e of
           XrStart \<Rightarrow> report (onSessionStart w1)
         | XrEnd \<Rightarrow> report (onSessionLost w1)
         | XrInputSourcesChange \<Rightarrow> w1)"

definition onInputChanged :: "world \<Rightarrow> world" where
  "onInputChanged w = dispatchEvent XrInputSourcesChange w"

definition onEnd :: "world \<Rightarrow> world" where
  "onEnd w = dispatchEvent XrEnd (onInputChanged (clear w))"

text \<open>\<open>session.end()\<close>: the host shuts the session down and queues its \<open>end\<close> event.\<close>

definition host_session_end :: "nat \<Rightarrow> world \<Rightarrow> world" where
  "host_session_end s w =
     (let w1 = log (SessionEndCall s) w
      in if hostLive w1 = Some s then w1\<lparr>hostLive := None, endQueue := endQueue w1 @ [s]\<rparr>
         else w1)"

definition xr_end :: "world \<Rightarrow> world" where
  "xr_end w =
     (case session w of
        None \<Rightarrow> w
      | Some s \<Rightarrow> host_session_end s (onInputChanged (clear w)))"

definition init :: "nat \<Rightarrow> nat \<Rightarrow> world \<Rightarrow> world" where
  "init s sp w =
     (let w0 = (if session w \<noteq> None then clear w else w);
          w1 = w0\<lparr>space := Some sp, session := Some s\<rparr>;
          (f1, w2) = bind_fn (bound_onEnd w1) w1;
          w3 = addEventListener s ''end'' f1 w2;
          (f2, w4) = bind_fn (bound_onInputChanged w3) w3;
          w5 = addEventListener s ''inputsourceschange'' f2 w4
      in dispatchEvent XrStart w5)"

text \<open>
  What the host answers to \<open>requestSession\<close> and \<open>requestReferenceSpace\<close>: no session; a
  session (with or without \<open>renderState.layers\<close>) but no reference space; a session and a
  reference space.
\<close>

datatype outcome = SessionDeclined | SpaceDeclined nat bool | Granted nat bool nat

text \<open>\<open>XRState.requestSession\<close> up to its first \<open>await\<close>, and from there on.\<close>

definition requestSession_begin :: "world \<Rightarrow> world" where
  "requestSession_begin w =
     log HostRequestSession (if session w \<noteq> None then xr_end w else w)"

definition requestSession_settle :: "outcome \<Rightarrow> world \<Rightarrow> unit res" where
  "requestSession_settle out w =
     (case out of
        SessionDeclined \<Rightarrow> throw Rejected w
      | SpaceDeclined s b \<Rightarrow>
          throw Rejected
            (log (HostRequestReferenceSpace s) (w\<lparr>hostLive := Some s, layersSupport := b\<rparr>))
      | Granted s b sp \<Rightarrow>
          ok () (init s sp
                   (log (HostRequestReferenceSpace s) (w\<lparr>hostLive := Some s, layersSupport := b\<rparr>))))"

section \<open>XRRenderer.requestXR\<close>

datatype progress = Done | Negotiating

text \<open>\<open>compatible\<close> tells whether \<open>gl.makeXRCompatible()\<close> resolves.\<close>

definition requestXR_enter :: "bool \<Rightarrow> world \<Rightarrow> progress res" where
  "requestXR_enter compatible w =
     (if active w then ok Done w
      else
        (let w0 = log MakeXRCompatible w
         in if \<not> compatible then throw Rejected w0
            else ok Negotiating (requestSession_begin (clearLoop w0))))"

text \<open>The \<open>try\<close> ... \<open>finally\<close>: the loop is attached whatever the negotiation gave.\<close>

definition requestXR_settle :: "outcome \<Rightarrow> world \<Rightarrow> unit res" where
  "requestXR_settle out w =
     (case requestSession_settle out w of
        (r, w1) \<Rightarrow>
          (case attachLoop w1 of
             (Inl e, w2) \<Rightarrow> (Inl e, w2)
           | (Inr u, w2) \<Rightarrow> (r, w2)))"

definition requestXR :: "bool \<Rightarrow> outcome \<Rightarrow> world \<Rightarrow> unit res" where
  "requestXR compatible out w =
     andThen (requestXR_enter compatible w)
       (\<lambda>p w1. case p of Done \<Rightarrow> ok () w1 | Negotiating \<Rightarrow> requestXR_settle out w1)"

section \<open>The host and the application\<close>

primrec root :: "fn \<Rightarrow> fn" where
  "root OnEnd = OnEnd"
| "root OnInputChanged = OnInputChanged"
| "root (Bound f k) = root f"

definition call_fn :: "fn \<Rightarrow> world \<Rightarrow> world" where
  "call_fn f w =
     (case root f of
        OnEnd \<Rightarrow> onEnd w
      | OnInputChanged \<Rightarrow> onInputChanged w
      | Bound g k \<Rightarrow> w)"

text \<open>The host fires an event of a session: every listener registered for it is called.\<close>

definition fire :: "nat \<Rightarrow> string \<Rightarrow> world \<Rightarrow> world" where
  "fire s ty w =
     foldl (\<lambda>v f. call_fn f v) w
       (map (\<lambda>x. snd (snd x)) (filter (\<lambda>x. fst x = s \<and> fst (snd x) = ty) (listeners w)))"

text \<open>The display fires the pending request \<open>i\<close>.\<close>

definition windowFrame :: "nat \<Rightarrow> nat \<Rightarrow> world \<Rightarrow> world option" where
  "windowFrame i time w =
     (if i \<in> set (winPending w) then
        Some (report (internalLoop time None (w\<lparr>winPending := filter (\<lambda>j. j \<noteq> i) (winPending w)\<rparr>)))
      else None)"

text \<open>The live session fires its pending request \<open>loopid\<close> with a frame object.\<close>

definition sessionFrame :: "nat \<Rightarrow> nat \<Rightarrow> nat \<Rightarrow> world \<Rightarrow> world option" where
  "sessionFrame loopid time frame w =
     (case hostLive w of
        None \<Rightarrow> None
      | Some s \<Rightarrow>
          (case find (\<lambda>p. fst p = s \<and> fst (snd p) = loopid) (sessPending w) of
             None \<Rightarrow> None
           | Some p \<Rightarrow>
               Some (report (xr_frame_wrapper (snd (snd p)) time frame
                  (w\<lparr>sessPending :=
                       filter (\<lambda>p. \<not> (fst p = s \<and> fst (snd p) = loopid)) (sessPending w)\<rparr>)))))"

text \<open>The host ends the live session itself and fires \<open>end\<close>; or it delivers the \<open>end\<close> event
  queued by \<open>session.end()\<close>.\<close>

definition hostEnd :: "world \<Rightarrow> world option" where
  "hostEnd w =
     (case hostLive w of
        None \<Rightarrow> None
      | Some s \<Rightarrow> Some (fire s ''end'' (w\<lparr>hostLive := None\<rparr>)))"

definition deliverEnd :: "world \<Rightarrow> world option" where
  "deliverEnd w =
     (case endQueue w of
        [] \<Rightarrow> None
      | s # q \<Rightarrow> Some (fire s ''end'' (w\<lparr>endQueue := q\<rparr>)))"

text \<open>
  The host grants an immersive session only when none is live and no \<open>end\<close> event is still
  queued, and the session it grants is a new object.
\<close>

definition may_settle :: "outcome \<Rightarrow> world \<Rightarrow> bool" where
  "may_settle out w =
     (case out of
        SessionDeclined \<Rightarrow> True
      | SpaceDeclined s b \<Rightarrow>
          hostLive w = None \<and> endQueue w = [] \<and>
          s \<notin> fst ` set (sessPending w) \<and> s \<notin> fst ` set (listeners w)
      | Granted s b sp \<Rightarrow>
          hostLive w = None \<and> endQueue w = [] \<and>
          s \<notin> fst ` set (sessPending w) \<and> s \<notin> fst ` set (listeners w))"

text \<open>
  What can happen to a renderer: calls of the application and callbacks of the host.
  \<open>AfterCompat\<close> is a \<open>requestXR\<close> that passed its guard earlier and resumes after
  \<open>makeXRCompatible\<close>; \<open>Settle\<close> is the host answering a negotiation.
\<close>

datatype ev =
    CallRaf cbk
  | CallCancel nat
  | WindowFrame nat nat
  | SessionFrame nat nat nat
  | CallRequestXR bool
  | AfterCompat
  | Settle outcome
  | HostEnd
  | CallEnd
  | DeliverEnd
  | NewLayer lclass opts
  | CallRegister nat
  | CallDestroy nat
  | CallBind nat "complayer option"
  | CallUpdate nat
  | CallNeedUpdate nat

definition step :: "ev \<Rightarrow> world \<Rightarrow> world option" where
  "step e w =
     (case e of
        CallRaf c \<Rightarrow> Some (snd (requestAnimationFrame c w))
      | CallCancel i \<Rightarrow> Some (cancelAnimationFrame i w)
      | WindowFrame i t \<Rightarrow> windowFrame i t w
      | SessionFrame i t f \<Rightarrow> sessionFrame i t f w
      | CallRequestXR compatible \<Rightarrow> Some (snd (requestXR_enter compatible w))
      | AfterCompat \<Rightarrow> Some (requestSession_begin (clearLoop w))
      | Settle out \<Rightarrow> (if may_settle out w then Some (snd (requestXR_settle out w)) else None)
      | HostEnd \<Rightarrow> hostEnd w
      | CallEnd \<Rightarrow> Some (xr_end w)
      | DeliverEnd \<Rightarrow> deliverEnd w
      | NewLayer c opt \<Rightarrow> Some (snd (new_layer c opt w))
      | CallRegister l \<Rightarrow> (if l < objects w then Some (snd (registerLayer l w)) else None)
      | CallDestroy l \<Rightarrow> (if l < objects w then Some (snd (layer_destroy l w)) else None)
      | CallBind l n \<Rightarrow> (if l < objects w then Some (snd (bindLayer l n w)) else None)
      | CallUpdate l \<Rightarrow> (if l < objects w then Some (snd (layer_update l w)) else None)
      | CallNeedUpdate l \<Rightarrow> (if l < objects w then Some (needUpdateTransform l w) else None))"

primrec run :: "ev list \<Rightarrow> world \<Rightarrow> world option" where
  "run [] w = Some w"
| "run (e # es) w = (case step e w of None \<Rightarrow> None | Some w1 \<Rightarrow> run es w1)"

text \<open>A renderer just constructed: no session, nothing registered, the loop not started.\<close>

definition initial :: world where
  "initial =
     \<lparr>layersSupport = False, session = None, space = None, xr_layers = [], baseLayer = None,
      baseLayerTarget = None, lastXRFrame = None, glBinding = None,
      bound_onEnd = Bound OnEnd 0, bound_onInputChanged = Bound OnInputChanged 1,
      layers = [], rafCallbacks = [], calbackID = 0, clearLoopDel = None,
      heap = (\<lambda>l. \<lparr>lclass = OGLXRLayer, options = \<lparr>o_space = None, o_viewPixelHeight = None,
                     o_viewPixelWidth = None, o_stereo = None\<rparr>,
                   nativeLayer = None, nativeTransform = None, emulatedLayers = None,
                   transformDirty = True, onLayerDestroy = Some Noop, children = []\<rparr>),
      fresh = 2, winPending = [], sessPending = [], listeners = [], hostLive = None,
      endQueue = [], objects = 0, transformOf = (\<lambda>n. None), trace = []\<rparr>"

definition reachable :: "world \<Rightarrow> bool" where
  "reachable w = (\<exists>es. run es initial = Some w)"


text \<open>The layers of a list that have a \<open>destroy\<close> method.\<close>

definition comp_of :: "native list \<Rightarrow> complayer list" where
  "comp_of ls =
     concat (map (\<lambda>l. case l of XRCompositionLayer c \<Rightarrow> [c] | XRWebGLLayer n \<Rightarrow> []) ls)"

text \<open>Two concrete inputs: the renderer after \<open>requestXR\<close> was granted session \<open>50\<close> with
  reference space \<open>60\<close>, by a host without and with layer support.\<close>

definition legacy_started :: world where
  "legacy_started =
     initial\<lparr>layersSupport := False, session := Some 50, space := Some 60,
       xr_layers := [XRWebGLLayer 5], baseLayer := Some (XRWebGLLayer 5),
       clearLoopDel := Some (SessionCanceller 6), fresh := 7,
       sessPending := [(50, 6, InternalLoop)],
       listeners := [(50, ''end'', Bound (Bound OnEnd 0) 2),
                     (50, ''inputsourceschange'', Bound (Bound OnInputChanged 1) 3)],
       hostLive := Some 50,
       trace := [MakeXRCompatible, HostRequestSession, HostRequestReferenceSpace 50,
                 Dispatch XrStart, SessionRequest 50 4,
                 UpdateRenderStateBase 50 (Some (XRWebGLLayer 5)), SessionCancel 50 4,
                 SessionRequest 50 6]\<rparr>"

definition layers_started :: world where
  "layers_started =
     initial\<lparr>layersSupport := True, session := Some 50, space := Some 60,
       xr_layers := [XRCompositionLayer (XRProjectionLayer 6)],
       baseLayer := Some (XRCompositionLayer (XRProjectionLayer 6)),
       baseLayerTarget := Some 7, glBinding := Some 5,
       clearLoopDel := Some (SessionCanceller 8), fresh := 9,
       sessPending := [(50, 8, InternalLoop)],
       listeners := [(50, ''end'', Bound (Bound OnEnd 0) 2),
                     (50, ''inputsourceschange'', Bound (Bound OnInputChanged 1) 3)],
       hostLive := Some 50,
       trace := [MakeXRCompatible, HostRequestSession, HostRequestReferenceSpace 50,
                 Dispatch XrStart, SessionRequest 50 4, Debug,
                 UpdateRenderStateLayers 50 [XRCompositionLayer (XRProjectionLayer 6)],
                 SessionCancel 50 4, SessionRequest 50 8]\<rparr>"

section \<open>Vocabulary of the statements\<close>

text \<open>\<open>extends x w w'\<close>: from \<open>w\<close> to \<open>w'\<close> the trace only grew, every read of
  \<open>xr.lastXRFrame\<close> logged on the way saw \<open>x\<close>, and \<open>x\<close> is still the current frame.\<close>

definition saw_only :: "nat option \<Rightarrow> event list \<Rightarrow> bool" where
  "saw_only x es = (\<forall>y. Saw y \<in> set es \<longrightarrow> y = x)"

definition extends :: "nat option \<Rightarrow> world \<Rightarrow> world \<Rightarrow> bool" where
  "extends x w w' = (lastXRFrame w' = x \<and> (\<exists>es. trace w' = trace w @ es \<and> saw_only x es))"






definition is_request :: "event \<Rightarrow> bool" where
  "is_request e = (case e of WindowRequest i \<Rightarrow> True | SessionRequest s i \<Rightarrow> True | _ \<Rightarrow> False)"

definition is_invoke :: "event \<Rightarrow> bool" where
  "is_invoke e = (case e of Invoke tag t f \<Rightarrow> True | _ \<Rightarrow> False)"

text \<open>What \<open>_clearLoop\<close> logs in a state, and the request \<open>_attachLoop\<close> issues after it.\<close>

definition cancel_trace :: "world \<Rightarrow> event list" where
  "cancel_trace w =
     (case clearLoopDel w of
        None \<Rightarrow> []
      | Some (WindowCanceller i) \<Rightarrow> [WindowCancel i]
      | Some (SessionCanceller i) \<Rightarrow>
          (case session w of None \<Rightarrow> [] | Some s \<Rightarrow> [SessionCancel s i]))"

definition request_event :: "world \<Rightarrow> event" where
  "request_event w =
     (case session w of
        None \<Rightarrow> WindowRequest (fresh w)
      | Some s \<Rightarrow> SessionRequest s (fresh w))"



text \<open>Predicates that the layer operations cannot disturb: they survive logging, do not look
  at the fields of \<open>XRState\<close> and of the host that those operations write, and survive each
  of the updates those operations make to a layer object.\<close>

definition heap_disc :: "(world \<Rightarrow> bool) \<Rightarrow> bool" where
  "heap_disc P =
     ((\<forall>w e. P w \<longrightarrow> P (log e w)) \<and>
      (\<forall>w x. P (w\<lparr>fresh := x\<rparr>) = P w) \<and>
      (\<forall>w x. P (w\<lparr>xr_layers := x\<rparr>) = P w) \<and>
      (\<forall>w x. P (w\<lparr>baseLayer := x\<rparr>) = P w) \<and>
      (\<forall>w x. P (w\<lparr>baseLayerTarget := x\<rparr>) = P w) \<and>
      (\<forall>w x. P (w\<lparr>glBinding := x\<rparr>) = P w) \<and>
      (\<forall>w x. P (w\<lparr>transformOf := x\<rparr>) = P w) \<and>
      (\<forall>w l x. P w \<longrightarrow> P (upd l (\<lambda>L. L\<lparr>nativeTransform := x\<rparr>) w)) \<and>
      (\<forall>w l. P w \<longrightarrow> P (upd l (\<lambda>L. L\<lparr>transformDirty := True\<rparr>) w)) \<and>
      (\<forall>w l x. P w \<longrightarrow> P (upd l (\<lambda>L. L\<lparr>nativeLayer := x\<rparr>) w)) \<and>
      (\<forall>w l x y. P w \<longrightarrow> P (upd l (\<lambda>L. L\<lparr>nativeLayer := x, nativeTransform := y\<rparr>) w)) \<and>
      (\<forall>w l ms. P w \<longrightarrow> lclass (heap w l) = OGLQuadLayer \<longrightarrow>
         P (upd l (\<lambda>L. L\<lparr>emulatedLayers := Some ms,
                         children := foldl addChild (children L) ms\<rparr>) w)) \<and>
      (\<forall>w l ms. P w \<longrightarrow>
         P (upd l (\<lambda>L. L\<lparr>children := foldl removeChild (children L) ms,
                         emulatedLayers := None\<rparr>) w)) \<and>
      (\<forall>w l x. P w \<longrightarrow> P (upd l (\<lambda>L. L\<lparr>options := (options L)\<lparr>o_space := x\<rparr>\<rparr>) w)) \<and>
      (\<forall>w l. P w \<longrightarrow> P (upd l (\<lambda>L. L\<lparr>onLayerDestroy := Some RendererOnLayerDestroy\<rparr>) w)))"

text \<open>Predicates that do not look at the registry.\<close>

definition layers_indep :: "(world \<Rightarrow> bool) \<Rightarrow> bool" where
  "layers_indep P = (\<forall>w x. P (w\<lparr>layers := x\<rparr>) = P w)"

text \<open>The same for the loop operations.\<close>

definition loop_stable :: "(world \<Rightarrow> bool) \<Rightarrow> bool" where
  "loop_stable P =
     ((\<forall>w e. P w \<longrightarrow> P (log e w)) \<and>
      (\<forall>w x. P (w\<lparr>fresh := x\<rparr>) = P w) \<and>
      (\<forall>w x. P (w\<lparr>clearLoopDel := x\<rparr>) = P w) \<and>
      (\<forall>w x. P (w\<lparr>winPending := x\<rparr>) = P w) \<and>
      (\<forall>w x. P (w\<lparr>sessPending := x\<rparr>) = P w) \<and>
      (\<forall>w x. P (w\<lparr>rafCallbacks := x\<rparr>) = P w) \<and>
      (\<forall>w x. P (w\<lparr>calbackID := x\<rparr>) = P w) \<and>
      (\<forall>w x. P (w\<lparr>lastXRFrame := x\<rparr>) = P w))"

text \<open>A predicate kept by everything the event handlers call.\<close>

definition callee_pres :: "(world \<Rightarrow> bool) \<Rightarrow> bool" where
  "callee_pres P =
     ((\<forall>e v. P v \<longrightarrow> P (log e v)) \<and>
      (\<forall>v. P v \<longrightarrow> P (clearLoop v)) \<and>
      (\<forall>v. P v \<longrightarrow> P (snd (attachLoop v))) \<and>
      (\<forall>l n v. P v \<longrightarrow> P (snd (bindLayer l n v))) \<and>
      (\<forall>ty opt v. P v \<longrightarrow> P (snd (getLayer ty opt v))) \<and>
      (\<forall>l v. P v \<longrightarrow> P (snd (bindNativeLayerTo l v))))"

text \<open>The same for the session operations of \<open>XRState\<close>.\<close>

definition sess_stable :: "(world \<Rightarrow> bool) \<Rightarrow> bool" where
  "sess_stable P =
     ((\<forall>w x. P (w\<lparr>session := x\<rparr>) = P w) \<and>
      (\<forall>w x. P (w\<lparr>space := x\<rparr>) = P w) \<and>
      (\<forall>w x. P (w\<lparr>listeners := x\<rparr>) = P w) \<and>
      (\<forall>w x. P (w\<lparr>hostLive := x\<rparr>) = P w) \<and>
      (\<forall>w x. P (w\<lparr>endQueue := x\<rparr>) = P w) \<and>
      (\<forall>w x. P (w\<lparr>layersSupport := x\<rparr>) = P w) \<and>
      (\<forall>w x. P (w\<lparr>xr_layers := x\<rparr>) = P w) \<and>
      (\<forall>w x. P (w\<lparr>baseLayer := x\<rparr>) = P w) \<and>
      (\<forall>w x. P (w\<lparr>baseLayerTarget := x\<rparr>) = P w) \<and>
      (\<forall>w x. P (w\<lparr>glBinding := x\<rparr>) = P w) \<and>
      (\<forall>w x. P (w\<lparr>fresh := x\<rparr>) = P w))"

text \<open>A predicate kept by \<open>update\<close> and \<open>needUpdateTransform\<close>.\<close>

definition upd_pres :: "(world \<Rightarrow> bool) \<Rightarrow> bool" where
  "upd_pres P =
     ((\<forall>l v. P v \<longrightarrow> P (snd (layer_update l v))) \<and>
      (\<forall>l v. P v \<longrightarrow> P (needUpdateTransform l v)))"

text \<open>A predicate kept by \<open>registerLayer\<close>, \<open>destroy\<close> and the constructors.\<close>

definition reg_pres :: "(world \<Rightarrow> bool) \<Rightarrow> bool" where
  "reg_pres P =
     ((\<forall>l v. P v \<longrightarrow> P (snd (registerLayer l v))) \<and>
      (\<forall>l v. P v \<longrightarrow> P (snd (layer_destroy l v))) \<and>
      (\<forall>c opt v. P v \<longrightarrow> P (snd (new_layer c opt v))))"

text \<open>The events that may change the registry.\<close>

definition layer_call :: "ev \<Rightarrow> bool" where
  "layer_call e =
     (case e of NewLayer c opt \<Rightarrow> True | CallRegister l \<Rightarrow> True | CallDestroy l \<Rightarrow> True
      | _ \<Rightarrow> False)"

text \<open>The stored cancellation handle belongs to a request that is pending on the source the
  loop is attached to.\<close>

definition has_pending_request :: "world \<Rightarrow> bool" where
  "has_pending_request w =
     (case clearLoopDel w of
        None \<Rightarrow> False
      | Some (WindowCanceller i) \<Rightarrow> i \<in> set (winPending w)
      | Some (SessionCanceller i) \<Rightarrow>
          (case session w of
             None \<Rightarrow> False
           | Some s \<Rightarrow> (s, i, InternalLoop) \<in> set (sessPending w)))"

text \<open>The trace is an extension of \<open>tr\<close>.\<close>

definition grows_from :: "event list \<Rightarrow> world \<Rightarrow> bool" where
  "grows_from tr w = (\<exists>es. trace w = tr @ es)"

text \<open>Every layer object has its dirty flag set.\<close>

definition always_dirty :: "world \<Rightarrow> bool" where
  "always_dirty w = (\<forall>l. transformDirty (heap w l))"

text \<open>An options object with none of the modelled properties.\<close>

definition plain_opts :: opts where
  "plain_opts = \<lparr>o_space = None, o_viewPixelHeight = None, o_viewPixelWidth = None,
                  o_stereo = None\<rparr>"

text \<open>A new renderer in which one layer object of class \<open>c\<close> was constructed and bound to
  the native layer \<open>XRQuadLayer 7\<close> with \<open>bindLayer\<close>.\<close>

definition bound_object :: "lclass \<Rightarrow> world" where
  "bound_object c =
     initial\<lparr>objects := 1, fresh := 3,
       heap := (heap initial)(0 :=
         \<lparr>lclass = c, options = plain_opts, nativeLayer = Some (XRQuadLayer 7),
          nativeTransform = Some 2, emulatedLayers = None, transformDirty = True,
          onLayerDestroy = Some Noop, children = []\<rparr>),
       transformOf := (case c of OGLQuadLayer \<Rightarrow> (\<lambda>n. None)(XRQuadLayer 7 := Some 2)
                        | OGLXRLayer \<Rightarrow> (\<lambda>n. None))\<rparr>"

text \<open>The registry as the specification counts it: a \<open>registerLayer\<close> call that returns adds
  the layer to the set of registered layers, a \<open>destroy\<close> call removes it, nothing else
  changes the set.\<close>

definition track :: "ev \<Rightarrow> world \<Rightarrow> nat set \<Rightarrow> nat set" where
  "track e w S =
     (case e of
        CallRegister l \<Rightarrow> (case fst (registerLayer l w) of Inr n \<Rightarrow> insert l S | Inl x \<Rightarrow> S)
      | CallDestroy l \<Rightarrow> S - {l}
      | _ \<Rightarrow> S)"

primrec registered :: "ev list \<Rightarrow> world \<Rightarrow> nat set \<Rightarrow> nat set" where
  "registered [] w S = S"
| "registered (e # es) w S =
     (case step e w of None \<Rightarrow> S | Some w1 \<Rightarrow> registered es w1 (track e w S))"

text \<open>A sequence of calls: two quad layers and a generic one are constructed and registered
  (the generic one is refused), one is registered twice, a \<open>requestXR\<close> is rejected, one
  layer is destroyed.\<close>

definition registry_demo :: "ev list" where
  "registry_demo =
     [NewLayer OGLQuadLayer plain_opts, CallRegister 0, NewLayer OGLXRLayer plain_opts,
      CallRegister 1, CallRegister 0, CallRequestXR False, NewLayer OGLQuadLayer plain_opts,
      CallRegister 2, CallDestroy 0]"

text \<open>The layer object is a quad layer and carries the renderer's destroy callback.\<close>

definition owned :: "world \<Rightarrow> nat \<Rightarrow> bool" where
  "owned v l =
     (lclass (heap v l) = OGLQuadLayer \<and>
      onLayerDestroy (heap v l) = Some RendererOnLayerDestroy)"

text \<open>No object of the generic class has fallback meshes.\<close>

definition generic_ok :: "world \<Rightarrow> bool" where
  "generic_ok v = (\<forall>l. lclass (heap v l) = OGLXRLayer \<longrightarrow> emulatedLayers (heap v l) = None)"

text \<open>The part of the registry invariant that is about the heap.\<close>

definition heap_ok :: "nat set \<Rightarrow> nat \<Rightarrow> world \<Rightarrow> bool" where
  "heap_ok A k v = (objects v = k \<and> generic_ok v \<and> (\<forall>l\<in>A. owned v l))"

text \<open>The registry invariant: no layer twice, only constructed objects, all of them owned.\<close>

definition reg_inv :: "world \<Rightarrow> bool" where
  "reg_inv w =
     (distinct (layers w) \<and> (\<forall>l\<in>set (layers w). l < objects w) \<and>
      heap_ok (set (layers w)) (objects w) w)"

text \<open>The class of a layer object, with no fallback meshes if it is the generic class.\<close>

definition is_class :: "nat \<Rightarrow> lclass \<Rightarrow> world \<Rightarrow> bool" where
  "is_class l c v = (lclass (heap v l) = c \<and> (c = OGLXRLayer \<longrightarrow> emulatedLayers (heap v l) = None))"

text \<open>The registry is \<open>c\<close>.\<close>

definition has_layers :: "nat list \<Rightarrow> world \<Rightarrow> bool" where
  "has_layers c v = (layers v = c)"

text \<open>The registry is \<open>c\<close> and the heap part of the invariant holds of it.\<close>

definition registry_kept :: "nat list \<Rightarrow> nat \<Rightarrow> world \<Rightarrow> bool" where
  "registry_kept c k v = (layers v = c \<and> heap_ok (set c) k v)"

text \<open>The number of frame requests that can still fire: those pending on the display, and
  those pending on the session that is live on the host.\<close>

definition outstanding :: "world \<Rightarrow> nat" where
  "outstanding w =
     length (winPending w) +
     length (filter (\<lambda>p. hostLive w = Some (fst p)) (sessPending w))"

text \<open>The invariant of the loop: at most one request can still fire, it is the one the stored
  handle belongs to, a session request can fire only while its session is attached, and no
  session is live while an \<open>end\<close> event is queued.\<close>

definition loop_inv :: "world \<Rightarrow> bool" where
  "loop_inv w =
     (outstanding w \<le> 1 \<and>
      (\<forall>i\<in>set (winPending w). clearLoopDel w = Some (WindowCanceller i)) \<and>
      (\<forall>p\<in>set (sessPending w). hostLive w = Some (fst p) \<longrightarrow>
         session w = Some (fst p) \<and> clearLoopDel w = Some (SessionCanceller (fst (snd p)))) \<and>
      (endQueue w \<noteq> [] \<longrightarrow> hostLive w = None))"

text \<open>No request can fire.\<close>

definition quiet :: "world \<Rightarrow> bool" where
  "quiet w =
     (winPending w = [] \<and> (\<forall>p\<in>set (sessPending w). hostLive w \<noteq> Some (fst p)) \<and>
      (endQueue w \<noteq> [] \<longrightarrow> hostLive w = None))"

text \<open>The host has just made \<open>s\<close> its live session: nothing is pending on it.\<close>

definition fresh_sess :: "nat \<Rightarrow> world \<Rightarrow> bool" where
  "fresh_sess s w =
     (hostLive w = Some s \<and> endQueue w = [] \<and> (\<forall>p\<in>set (sessPending w). fst p \<noteq> s) \<and>
      length (winPending w) \<le> 1 \<and>
      (\<forall>i\<in>set (winPending w). clearLoopDel w = Some (WindowCanceller i)))"

text \<open>The invariant in a state where no session is live.\<close>

definition ended_inv :: "world \<Rightarrow> bool" where
  "ended_inv w = (hostLive w = None \<and> loop_inv w)"

text \<open>A predicate kept by logging and \<open>_attachLoop\<close> that does not look at the callback map,
  the callback counter and the current frame.\<close>

definition tick_pres :: "(world \<Rightarrow> bool) \<Rightarrow> bool" where
  "tick_pres P =
     ((\<forall>e v. P v \<longrightarrow> P (log e v)) \<and>
      (\<forall>v. P v \<longrightarrow> P (snd (attachLoop v))) \<and>
      (\<forall>w x. P (w\<lparr>rafCallbacks := x\<rparr>) = P w) \<and>
      (\<forall>w x. P (w\<lparr>calbackID := x\<rparr>) = P w) \<and>
      (\<forall>w x. P (w\<lparr>lastXRFrame := x\<rparr>) = P w))"

section \<open>Basic facts\<close>

lemma heap_log [simp]: "heap (log e w) = heap w"
  by (simp add: log_def)

lemma heap_upd [simp]: "heap (upd l f w) = (heap w)(l := f (heap w l))"
  by (simp add: upd_def)

lemma updateRenderState_heap: "heap (snd (updateRenderState w)) = heap w"
  by (simp add: updateRenderState_def ok_def throw_def split: option.splits)

lemma xr_onLayerDestroy_heap: "heap (snd (xr_onLayerDestroy n w)) = heap w"
  by (simp add: xr_onLayerDestroy_def ok_def updateRenderState_heap)

lemma onLayerDestroy_r_heap: "heap (snd (onLayerDestroy_r l b w)) = heap w"
  by (simp add: onLayerDestroy_r_def Let_def ok_def xr_onLayerDestroy_heap split: option.splits)

lemma call_onLayerDestroy_heap: "heap (snd (call_onLayerDestroy l b w)) = heap w"
  by (simp add: call_onLayerDestroy_def ok_def onLayerDestroy_r_heap split: option.splits dcb.splits)

lemma updateRenderState_ok: "session w \<noteq> None \<Longrightarrow> fst (updateRenderState w) = Inr ()"
  by (auto simp: updateRenderState_def ok_def)

lemma xr_onLayerDestroy_ok: "fst (xr_onLayerDestroy n w) = Inr ()"
  by (simp add: xr_onLayerDestroy_def ok_def updateRenderState_ok)

lemma onLayerDestroy_r_ok: "fst (onLayerDestroy_r l b w) = Inr ()"
  by (simp add: onLayerDestroy_r_def Let_def ok_def xr_onLayerDestroy_ok split: option.splits)

lemma call_onLayerDestroy_ok: "fst (call_onLayerDestroy l b w) = Inr ()"
  by (simp add: call_onLayerDestroy_def ok_def onLayerDestroy_r_ok split: option.splits dcb.splits)

lemma call_onLayerDestroy_result:
  obtains w1 where "call_onLayerDestroy l b w = (Inr (), w1)" and "heap w1 = heap w"
  using call_onLayerDestroy_ok [of l b w] call_onLayerDestroy_heap [of l b w]
  by (cases "call_onLayerDestroy l b w") simp

section \<open>A layer is never native and fallback at once\<close>

lemma destroyFallback_fields [simp]:
  "nativeLayer (heap (destroyFallback l w) l) = nativeLayer (heap w l)"
  "emulatedLayers (heap (destroyFallback l w) l) = None"
  by (simp_all add: destroyFallback_def split: option.splits)

lemma destroyNative_fields [simp]:
  "nativeLayer (heap (destroyNative l w) l) = None"
  "emulatedLayers (heap (destroyNative l w) l) = emulatedLayers (heap w l)"
  by (simp_all add: destroyNative_def Let_def split: option.splits)

lemma super_updateNative_fields [simp]:
  "nativeLayer (heap (super_updateNative l w) l) = nativeLayer (heap w l)"
  "emulatedLayers (heap (super_updateNative l w) l) = emulatedLayers (heap w l)"
  by (simp_all add: super_updateNative_def)

lemma updateNative_fields [simp]:
  "nativeLayer (heap (snd (updateNative l w)) l) = nativeLayer (heap w l)"
  "emulatedLayers (heap (snd (updateNative l w)) l) = emulatedLayers (heap w l)"
  by (simp_all add: updateNative_def ok_def throw_def Let_def split: lclass.splits option.splits)

lemma createFallback_fields [simp]:
  "nativeLayer (heap (snd (createFallback l w)) l) = nativeLayer (heap w l)"
  by (simp add: createFallback_def createFallbackLayers_def ok_def throw_def andThen_def
      split: lclass.splits option.splits)

lemma bindLayer_None_native:
  "nativeLayer (heap (snd (bindLayer l None w)) l) = None"
proof -
  obtain w1 where c: "call_onLayerDestroy l True w = (Inr (), w1)" and h: "heap w1 = heap w"
    by (rule call_onLayerDestroy_result)
  show ?thesis
    by (cases "nativeLayer (heap w l)") (simp_all add: bindLayer_def andThen_def ok_def c h)
qed

lemma bindLayer_Some_emulated:
  "emulatedLayers (heap (snd (bindLayer l (Some n) w)) l) = None"
proof -
  obtain w1 where c: "call_onLayerDestroy l True w = (Inr (), w1)" and h: "heap w1 = heap w"
    by (rule call_onLayerDestroy_result)
  show ?thesis
    by (cases "nativeLayer (heap w l)") (simp_all add: bindLayer_def andThen_def ok_def c h)
qed

text \<open>
  C2. After any \<open>bindLayer\<close> call, with any argument, from any prior state of the layer and of
  the rest of the program, and whether the call returned or threw: the layer does not hold a
  native handle and fallback primitives at once, and \<open>isNative\<close> holds exactly when a native
  handle is present and no fallback primitives are held.
\<close>

theorem bindLayer_exclusive:
  "(nativeLayer (heap (snd (bindLayer l arg w)) l) = None \<or>
    emulatedLayers (heap (snd (bindLayer l arg w)) l) = None) \<and>
   (isNative (heap (snd (bindLayer l arg w)) l) \<longleftrightarrow>
      nativeLayer (heap (snd (bindLayer l arg w)) l) \<noteq> None \<and>
      emulatedLayers (heap (snd (bindLayer l arg w)) l) = None)"
  by (cases arg) (simp_all add: bindLayer_None_native bindLayer_Some_emulated isNative_def)

lemmas evals =
  requestXR_def requestXR_enter_def requestXR_settle_def
  requestSession_begin_def requestSession_settle_def init_def clear_def xr_end_def
  host_session_end_def onEnd_def onInputChanged_def dispatchEvent_def report_def
  onSessionStart_def onSessionLost_def registerLayer_def bindNativeLayerTo_def
  as_XRCompositionLayer_def classType_def xr_frame_wrapper_def call_frame_cb_def
  internalLoop_def call_cbk_def run_action_def cancelAnimationFrame_def
  requestAnimationFrame_def attachLoop_def clearLoop_def destroy_opt_def bind_fn_def
  removeEventListener_def addEventListener_def run_canceller_def xr_requestAnimationFrame_def
  new_layer_def layer_destroy_def bindLayer_def call_onLayerDestroy_def onLayerDestroy_r_def
  destroyFallback_def createFallback_def removeChild_def addChild_def createFallbackLayers_def
  destroyNative_def needUpdateTransform_def layer_update_def updateNative_def
  super_updateNative_def isNative_def getLayer_def assign_def defaults_def
  xr_onLayerDestroy_def updateRenderState_def active_def new_XRRenderTarget_def
  createQuadLayer_def createProjectionLayer_def new_XRWebGLBinding_def new_XRWebGLLayer_def
  upd_def log_def andThen_def throw_def ok_def initial_def Let_def

theorem bindLayer_exclusive_witness:
  "isNative (heap (snd (bindLayer 0 (Some (XRQuadLayer 3)) initial)) 0) \<and>
   nativeLayer (heap (snd (bindLayer 0 (Some (XRQuadLayer 3)) initial)) 0) = Some (XRQuadLayer 3) \<and>
   emulatedLayers (heap (snd (bindLayer 0 (Some (XRQuadLayer 3)) initial)) 0) = None"
  using bindLayer_exclusive [of 0 "Some (XRQuadLayer 3)" initial]
  by (simp add: evals)

section \<open>getLayer on a host without layer support\<close>

lemma legacy_started_fields:
  "\<not> layersSupport legacy_started" "session legacy_started = Some 50"
  "xr_layers legacy_started = [XRWebGLLayer 5]" "fresh legacy_started = 7"
  "trace legacy_started =
     [MakeXRCompatible, HostRequestSession, HostRequestReferenceSpace 50,
      Dispatch XrStart, SessionRequest 50 4,
      UpdateRenderStateBase 50 (Some (XRWebGLLayer 5)), SessionCancel 50 4,
      SessionRequest 50 6]"
  by (simp_all add: legacy_started_def initial_def)

lemma layers_started_fields:
  "layersSupport layers_started" "session layers_started = Some 50"
  "space layers_started = Some 60"
  "xr_layers layers_started = [XRCompositionLayer (XRProjectionLayer 6)]"
  "baseLayer layers_started = Some (XRCompositionLayer (XRProjectionLayer 6))"
  "baseLayerTarget layers_started = Some 7" "glBinding layers_started = Some 5"
  "fresh layers_started = 9" "layers layers_started = []" "objects layers_started = 0"
  "bound_onEnd layers_started = Bound OnEnd 0"
  "bound_onInputChanged layers_started = Bound OnInputChanged 1"
  "listeners layers_started =
     [(50, ''end'', Bound (Bound OnEnd 0) 2),
      (50, ''inputsourceschange'', Bound (Bound OnInputChanged 1) 3)]"
  "hostLive layers_started = Some 50" "clearLoopDel layers_started = Some (SessionCanceller 8)"
  "sessPending layers_started = [(50, 8, InternalLoop)]" "winPending layers_started = []"
  by (simp_all add: layers_started_def initial_def)

text \<open>Both concrete inputs are what \<open>requestXR\<close> leaves when the host grants the session.\<close>

lemma legacy_started_reached:
  "requestXR True (Granted 50 False 60) initial = (Inr (), legacy_started)"
  by (simp add: evals legacy_started_def)

lemma layers_started_reached:
  "requestXR True (Granted 50 True 60) initial = (Inr (), layers_started)"
  by (simp add: evals layers_started_def)

text \<open>Without layer support a request for a non-base type, or for any layer when more than
  one layer is in the list, warns, returns \<open>null\<close> and changes nothing else.\<close>

lemma getLayer_legacy_refused:
  "\<not> layersSupport w \<Longrightarrow> ty \<noteq> TBase \<or> length (xr_layers w) > 1 \<Longrightarrow>
   getLayer ty opt w = (Inr None, log (Warn ''[XR] Only single base layer is supported!'') w)"
  by (auto simp: getLayer_def ok_def Let_def)

text \<open>With at most one layer in the list a base request goes through.\<close>

lemma getLayer_legacy_one:
  "\<not> layersSupport w \<Longrightarrow> session w = Some s \<Longrightarrow> length (xr_layers w) \<le> 1 \<Longrightarrow>
   getLayer TBase opt w =
     (Inr (Some (XRWebGLLayer (fresh w))),
      log (UpdateRenderStateBase s (Some (XRWebGLLayer (fresh w))))
        (w\<lparr>fresh := Suc (fresh w), baseLayer := Some (XRWebGLLayer (fresh w)),
           xr_layers := XRWebGLLayer (fresh w) # xr_layers w\<rparr>))"
  by (simp add: getLayer_def new_XRWebGLLayer_def updateRenderState_def log_def andThen_def
      ok_def Let_def)

text \<open>
  C1 (the code departs from the claim). On a host without layer support, with a session active
  and one layer already in the active-layer list, \<open>getLayer\<close> for the base type does not warn
  and does not return \<open>null\<close>: it mints a second \<open>XRWebGLLayer\<close>, makes it the base layer and
  puts it in front of the list, which is then two layers long. The guard tests
  \<open>layers.length > 1\<close>, so the second layer is let through and only the third is refused.
\<close>

theorem getLayer_legacy_second_base:
  "\<not> layersSupport legacy_started \<and> session legacy_started = Some 50 \<and>
   xr_layers legacy_started = [XRWebGLLayer 5] \<and>
   fst (getLayer TBase None legacy_started) = Inr (Some (XRWebGLLayer 7)) \<and>
   xr_layers (snd (getLayer TBase None legacy_started)) = [XRWebGLLayer 7, XRWebGLLayer 5] \<and>
   baseLayer (snd (getLayer TBase None legacy_started)) = Some (XRWebGLLayer 7) \<and>
   trace (snd (getLayer TBase None legacy_started)) =
     trace legacy_started @ [UpdateRenderStateBase 50 (Some (XRWebGLLayer 7))]"
  using getLayer_legacy_one [of legacy_started 50 None]
  by (simp add: legacy_started_fields log_def)

theorem getLayer_legacy_second_base_witness:
  "length (xr_layers (snd (getLayer TBase None legacy_started))) = 2"
  using getLayer_legacy_second_base by simp

section \<open>Teardown\<close>

lemma comp_of_Nil [simp]: "comp_of [] = []"
  by (simp add: comp_of_def)

lemma foldl_destroy_opt:
  "foldl (\<lambda>v layer. destroy_opt layer v) w ls = w\<lparr>trace := trace w @ map Destroyed (comp_of ls)\<rparr>"
  by (induction ls arbitrary: w)
     (simp_all add: comp_of_def destroy_opt_def log_def split: native.splits)

lemma destroy_opt_eq:
  "destroy_opt b w = w\<lparr>trace := trace w @ map Destroyed (comp_of [b])\<rparr>"
  by (simp add: comp_of_def destroy_opt_def log_def split: native.splits)

lemma clear_inactive: "session w = None \<Longrightarrow> clear w = w"
  by (simp add: clear_def)

text \<open>What \<open>clear\<close> does to a state with a session, field by field.\<close>

lemma clear_active:
  "session w = Some s \<Longrightarrow>
   clear w =
     w\<lparr>listeners := filter (\<lambda>x. x \<noteq> (s, ''inputsourceschange'', bound_onInputChanged w))
                       (filter (\<lambda>x. x \<noteq> (s, ''end'', bound_onEnd w)) (listeners w)),
       trace := trace w @ map Destroyed (comp_of (xr_layers w))
                  @ (case baseLayerTarget w of None \<Rightarrow> [] | Some t \<Rightarrow> [TargetDestroyed t])
                  @ map Destroyed (comp_of (case baseLayer w of None \<Rightarrow> [] | Some b \<Rightarrow> [b])),
       xr_layers := [], session := None, space := None,
       baseLayerTarget := None, baseLayer := None, glBinding := None\<rparr>"
  unfolding clear_def Let_def foldl_destroy_opt
  by (simp add: removeEventListener_def log_def destroy_opt_eq split: option.splits)

text \<open>The part of the teardown that holds: every composition layer of the list is destroyed,
  then the base-layer render target, then the base layer; binding, base layer, reference
  space and session are nulled; a second \<open>clear\<close> changes nothing.\<close>

lemma clear_teardown:
  assumes "session w = Some s"
  shows "session (clear w) = None \<and> space (clear w) = None \<and> xr_layers (clear w) = [] \<and>
         baseLayer (clear w) = None \<and> baseLayerTarget (clear w) = None \<and>
         glBinding (clear w) = None \<and>
         trace (clear w) = trace w @ map Destroyed (comp_of (xr_layers w))
           @ (case baseLayerTarget w of None \<Rightarrow> [] | Some t \<Rightarrow> [TargetDestroyed t])
           @ map Destroyed (comp_of (case baseLayer w of None \<Rightarrow> [] | Some b \<Rightarrow> [b])) \<and>
         clear (clear w) = clear w"
  using assms by (simp add: clear_active clear_inactive)

text \<open>
  C4 (the code departs from the claim). \<open>init\<close> registers \<open>this.onEnd.bind(this)\<close> and
  \<open>this.onInputChanged.bind(this)\<close>, two new function objects, and \<open>clear\<close> asks the session to
  remove \<open>this.onEnd\<close> and \<open>this.onInputChanged\<close>, which were never registered. After \<open>clear\<close>
  on a started session both listeners are still attached to the session.
\<close>

theorem clear_keeps_listeners:
  "session layers_started = Some 50 \<and>
   listeners layers_started =
     [(50, ''end'', Bound (Bound OnEnd 0) 2),
      (50, ''inputsourceschange'', Bound (Bound OnInputChanged 1) 3)] \<and>
   listeners (clear layers_started) = listeners layers_started"
  by (simp add: clear_active [of layers_started 50] layers_started_fields)

theorem clear_keeps_listeners_witness:
  "(50, ''end'', Bound (Bound OnEnd 0) 2) \<in> set (listeners (clear layers_started))"
  using clear_keeps_listeners by simp

section \<open>Successful creation puts the layer in front and syncs the render state\<close>

lemma updateRenderState_result:
  "session w = Some s \<Longrightarrow>
   updateRenderState w =
     (Inr (), log (if layersSupport w then UpdateRenderStateLayers s (xr_layers w)
                   else UpdateRenderStateBase s (baseLayer w)) w)"
  by (simp add: updateRenderState_def ok_def)

lemma updateRenderState_throws:
  "session w = None \<Longrightarrow> updateRenderState w = (Inl TypeError, w)"
  by (simp add: updateRenderState_def throw_def)

lemma getLayer_quad:
  "layersSupport w \<Longrightarrow> session w = Some s \<Longrightarrow> glBinding w = Some b \<Longrightarrow>
   getLayer TQuad opt w =
     (Inr (Some (XRCompositionLayer (XRQuadLayer (fresh w)))),
      log (UpdateRenderStateLayers s (XRCompositionLayer (XRQuadLayer (fresh w)) # xr_layers w))
        (w\<lparr>fresh := Suc (fresh w),
           xr_layers := XRCompositionLayer (XRQuadLayer (fresh w)) # xr_layers w\<rparr>))"
  by (simp add: getLayer_def createQuadLayer_def updateRenderState_result log_def andThen_def
      ok_def Let_def)

text \<open>Registering a quad layer that has no native handle yet, on a layer-capable host with a
  session and a binding: the layer gets a new native quad layer, in front of the list.\<close>

lemma registerLayer_quad:
  assumes "layersSupport w" "session w = Some s" "glBinding w = Some b"
    "lclass (heap w l) = OGLQuadLayer" "nativeLayer (heap w l) = None"
  shows "xr_layers (snd (registerLayer l w)) =
           XRCompositionLayer (XRQuadLayer (fresh w)) # xr_layers w \<and>
         nativeLayer (heap (snd (registerLayer l w)) l) = Some (XRQuadLayer (fresh w)) \<and>
         isNative (heap (snd (registerLayer l w)) l) \<and>
         layers (snd (registerLayer l w)) = l # remove1 l (layers w)"
  using assms
  by (cases "emulatedLayers (heap w l)") (simp_all add: evals remove1_idem)

lemma getLayer_front:
  assumes "getLayer ty opt w = (Inr (Some layer), w')"
  shows "xr_layers w' = layer # xr_layers w \<and>
         (\<exists>s. session w' = Some s \<and> trace w' \<noteq> [] \<and>
            last (trace w') =
              (if layersSupport w' then UpdateRenderStateLayers s (xr_layers w')
               else UpdateRenderStateBase s (baseLayer w')))"
proof (cases "session w")
  case None
  with assms show ?thesis
    by (auto simp: getLayer_def Let_def andThen_def ok_def throw_def new_XRWebGLLayer_def
        new_XRWebGLBinding_def createProjectionLayer_def createQuadLayer_def
        new_XRRenderTarget_def updateRenderState_throws log_def
        split: if_splits option.splits ltype.splits)
next
  case (Some s)
  with assms show ?thesis
    by (auto simp: getLayer_def Let_def andThen_def ok_def throw_def new_XRWebGLLayer_def
        new_XRWebGLBinding_def createProjectionLayer_def createQuadLayer_def
        new_XRRenderTarget_def updateRenderState_result log_def
        split: if_splits option.splits ltype.splits)
qed

text \<open>
  C9. Whenever \<open>getLayer\<close> returns a layer (legacy base, projection base or quad), the
  active-layer list afterwards is that layer in front of the list before, and the last thing
  the call did was the render-state sync of the session with the new list (or, without layer
  support, with the new base layer). In particular: \<open>requestXR\<close> on a new renderer, granted by
  a layer-capable host, leaves the projection base layer alone in the list; constructing a
  quad layer (with any options) and registering it then gives a list of length 2, the quad
  in front of the base, and the quad layer is in native state.
\<close>

theorem getLayer_pushes_front:
  assumes "getLayer ty opt w = (Inr (Some layer), w')"
  shows "xr_layers w' = layer # xr_layers w \<and>
         (\<exists>s. session w' = Some s \<and> trace w' \<noteq> [] \<and>
            last (trace w') =
              (if layersSupport w' then UpdateRenderStateLayers s (xr_layers w')
               else UpdateRenderStateBase s (baseLayer w'))) \<and>
         requestXR True (Granted 50 True 60) initial = (Inr (), layers_started) \<and>
         xr_layers layers_started = [XRCompositionLayer (XRProjectionLayer 6)] \<and>
         fst (new_layer OGLQuadLayer qo layers_started) = 0 \<and>
         xr_layers (snd (registerLayer 0 (snd (new_layer OGLQuadLayer qo layers_started)))) =
           [XRCompositionLayer (XRQuadLayer 9), XRCompositionLayer (XRProjectionLayer 6)] \<and>
         length (xr_layers (snd (registerLayer 0 (snd (new_layer OGLQuadLayer qo layers_started))))) = 2 \<and>
         isNative (heap (snd (registerLayer 0 (snd (new_layer OGLQuadLayer qo layers_started)))) 0)"
proof -
  let ?w = "snd (new_layer OGLQuadLayer qo layers_started)"
  have 1: "layersSupport ?w" "session ?w = Some 50" "glBinding ?w = Some 5"
    "lclass (heap ?w 0) = OGLQuadLayer" "nativeLayer (heap ?w 0) = None"
    "fresh ?w = 9" "xr_layers ?w = [XRCompositionLayer (XRProjectionLayer 6)]"
    "fst (new_layer OGLQuadLayer qo layers_started) = 0"
    by (simp_all add: new_layer_def layers_started_fields)
  from registerLayer_quad [OF 1(1-5)] getLayer_front [OF assms] layers_started_reached
  show ?thesis by (simp add: 1 layers_started_fields)
qed

theorem getLayer_pushes_front_witness:
  "xr_layers (snd (getLayer TQuad None layers_started)) =
     [XRCompositionLayer (XRQuadLayer 9), XRCompositionLayer (XRProjectionLayer 6)]"
proof -
  have "getLayer TQuad None layers_started =
          (Inr (Some (XRCompositionLayer (XRQuadLayer 9))),
           snd (getLayer TQuad None layers_started))"
    by (simp add: getLayer_quad [of layers_started 50 5] layers_started_fields)
  from getLayer_pushes_front [OF this] show ?thesis
    by (simp add: layers_started_fields)
qed

section \<open>The loop never throws\<close>

lemma andThen_pres:
  "P (snd m) \<Longrightarrow> (\<And>a v. P v \<Longrightarrow> P (snd (k a v))) \<Longrightarrow> P (snd (andThen m k))"
  by (cases m) (auto simp: andThen_def split: sum.splits)

lemma forEach_pres:
  "(\<And>x v. P v \<Longrightarrow> P (snd (f x v))) \<Longrightarrow> P w \<Longrightarrow> P (snd (forEach f xs w))"
  by (induction xs arbitrary: w) (auto simp: ok_def intro: andThen_pres)

lemma andThen_ok:
  "fst m = Inr a \<Longrightarrow> andThen m k = k a (snd m)"
  by (cases m) (simp add: andThen_def)

lemma forEach_ok:
  "(\<And>x v. fst (f x v) = Inr ()) \<Longrightarrow> fst (forEach f xs w) = Inr ()"
  by (induction xs arbitrary: w) (simp_all add: ok_def andThen_ok)

lemma attachLoop_eq:
  "attachLoop w =
     (Inr (),
      (case session w of
         Some s \<Rightarrow>
           log (SessionRequest s (fresh (clearLoop w)))
             ((clearLoop w)\<lparr>fresh := Suc (fresh (clearLoop w)),
                sessPending := sessPending (clearLoop w) @ [(s, fresh (clearLoop w), InternalLoop)],
                clearLoopDel := Some (SessionCanceller (fresh (clearLoop w)))\<rparr>)
       | None \<Rightarrow>
           log (WindowRequest (fresh (clearLoop w)))
             ((clearLoop w)\<lparr>fresh := Suc (fresh (clearLoop w)),
                winPending := winPending (clearLoop w) @ [fresh (clearLoop w)],
                clearLoopDel := Some (WindowCanceller (fresh (clearLoop w)))\<rparr>)))"
proof -
  have s: "session (clearLoop w) = session w"
    by (simp add: clearLoop_def run_canceller_def log_def split: option.splits canceller.splits)
  show ?thesis
    by (cases "session w")
       (simp_all add: attachLoop_def Let_def active_def s xr_requestAnimationFrame_def
          andThen_def ok_def log_def)
qed

lemma attachLoop_ok: "fst (attachLoop w) = Inr ()"
  by (simp add: attachLoop_eq)

lemma requestAnimationFrame_attached:
  "clearLoopDel w = Some d \<Longrightarrow>
   requestAnimationFrame c w =
     (Inr (calbackID w),
      w\<lparr>calbackID := Suc (calbackID w),
        rafCallbacks := AList.update (calbackID w) c (rafCallbacks w)\<rparr>)"
  by (simp add: requestAnimationFrame_def Let_def ok_def andThen_def)

lemma requestAnimationFrame_detached:
  "clearLoopDel w = None \<Longrightarrow>
   requestAnimationFrame c w =
     (Inr (calbackID w),
      snd (attachLoop (w\<lparr>calbackID := Suc (calbackID w),
        rafCallbacks := AList.update (calbackID w) c (rafCallbacks w)\<rparr>)))"
  by (simp add: requestAnimationFrame_def Let_def andThen_ok [OF attachLoop_ok] ok_def)

lemma requestAnimationFrame_ok: "fst (requestAnimationFrame c w) = Inr (calbackID w)"
  by (cases "clearLoopDel w")
     (simp_all add: requestAnimationFrame_attached requestAnimationFrame_detached)

lemma run_action_ok: "fst (run_action a w) = Inr ()"
  by (cases a) (simp_all add: run_action_def ok_def andThen_ok [OF requestAnimationFrame_ok])

lemma call_cbk_ok: "fst (call_cbk c t f w) = Inr ()"
  by (cases c) (simp add: call_cbk_def forEach_ok run_action_ok)

lemma internalLoop_ok: "fst (internalLoop t f w) = Inr ()"
  by (simp add: internalLoop_def Let_def andThen_ok [OF forEach_ok] call_cbk_ok attachLoop_ok)

lemma call_frame_cb_ok: "fst (call_frame_cb c t f w) = Inr ()"
  by (cases c) (simp_all add: call_frame_cb_def internalLoop_ok call_cbk_ok)


lemma extends_trans: "extends x w v \<Longrightarrow> extends x v u \<Longrightarrow> extends x w u"
  by (auto simp: extends_def saw_only_def)














section \<open>One tick of the loop\<close>





lemma clearLoop_fields:
  "session (clearLoop w) = session w" "fresh (clearLoop w) = fresh w"
  "lastXRFrame (clearLoop w) = lastXRFrame w" "rafCallbacks (clearLoop w) = rafCallbacks w"
  "calbackID (clearLoop w) = calbackID w" "clearLoopDel (clearLoop w) = None"
  "trace (clearLoop w) = trace w @ cancel_trace w"
  by (simp_all add: clearLoop_def run_canceller_def log_def cancel_trace_def
      split: option.splits canceller.splits)

lemma attachLoop_fields:
  "trace (snd (attachLoop w)) = trace w @ cancel_trace w @ [request_event w]"
  "rafCallbacks (snd (attachLoop w)) = rafCallbacks w"
  "calbackID (snd (attachLoop w)) = calbackID w"
  "lastXRFrame (snd (attachLoop w)) = lastXRFrame w"
  "session (snd (attachLoop w)) = session w"
  by (simp_all add: attachLoop_eq clearLoop_fields log_def request_event_def split: option.splits)






lemma cancel_request_kinds:
  "filter is_invoke (cancel_trace w @ [request_event w]) = []"
  "is_request (request_event w)"
  "filter is_request (cancel_trace w) = []"
  by (simp_all add: cancel_trace_def request_event_def is_invoke_def is_request_def
      split: option.splits canceller.splits)




section \<open>The current frame\<close>



section \<open>Predicates the operations keep\<close>

lemma snd_ok [simp]: "snd (ok a w) = w" and fst_ok [simp]: "fst (ok a w) = Inr a"
  and snd_throw [simp]: "snd (throw e w) = w" and fst_throw [simp]: "fst (throw e w) = Inl e"
  by (simp_all add: ok_def throw_def)

lemma heap_discD:
  assumes "heap_disc P"
  shows "P w \<Longrightarrow> P (log e w)"
    "P (w\<lparr>fresh := x1\<rparr>) = P w" "P (w\<lparr>xr_layers := x2\<rparr>) = P w"
    "P (w\<lparr>baseLayer := x3\<rparr>) = P w" "P (w\<lparr>baseLayerTarget := x4\<rparr>) = P w"
    "P (w\<lparr>glBinding := x5\<rparr>) = P w" "P (w\<lparr>transformOf := x6\<rparr>) = P w"
    "P w \<Longrightarrow> P (upd l (\<lambda>L. L\<lparr>nativeTransform := y1\<rparr>) w)"
    "P w \<Longrightarrow> P (upd l (\<lambda>L. L\<lparr>transformDirty := True\<rparr>) w)"
    "P w \<Longrightarrow> P (upd l (\<lambda>L. L\<lparr>nativeLayer := y2\<rparr>) w)"
    "P w \<Longrightarrow> P (upd l (\<lambda>L. L\<lparr>nativeLayer := y3, nativeTransform := y4\<rparr>) w)"
    "P w \<Longrightarrow> lclass (heap w l) = OGLQuadLayer \<Longrightarrow>
       P (upd l (\<lambda>L. L\<lparr>emulatedLayers := Some ms,
                       children := foldl addChild (children L) ms\<rparr>) w)"
    "P w \<Longrightarrow> P (upd l (\<lambda>L. L\<lparr>children := foldl removeChild (children L) ms,
                       emulatedLayers := None\<rparr>) w)"
    "P w \<Longrightarrow> P (upd l (\<lambda>L. L\<lparr>options := (options L)\<lparr>o_space := y5\<rparr>\<rparr>) w)"
    "P w \<Longrightarrow> P (upd l (\<lambda>L. L\<lparr>onLayerDestroy := Some RendererOnLayerDestroy\<rparr>) w)"
  using assms by (simp_all add: heap_disc_def)

lemma updateRenderState_disc:
  assumes "heap_disc P" "P w" shows "P (snd (updateRenderState w))"
proof -
  note [simp] = heap_discD [OF assms(1)]
  show ?thesis using assms(2)
    by (simp add: updateRenderState_def ok_def throw_def split: option.splits)
qed

lemma xr_onLayerDestroy_disc:
  assumes "heap_disc P" "P w" shows "P (snd (xr_onLayerDestroy n w))"
proof -
  note [simp] = heap_discD [OF assms(1)]
  show ?thesis using assms(2)
    by (simp add: xr_onLayerDestroy_def ok_def updateRenderState_disc [OF assms(1)])
qed

lemma getLayer_disc:
  assumes "heap_disc P" "P w" shows "P (snd (getLayer ty opt w))"
proof -
  note [simp] = heap_discD [OF assms(1)]
  show ?thesis using assms(2)
    by (simp add: getLayer_def Let_def andThen_def ok_def throw_def new_XRWebGLLayer_def
        new_XRWebGLBinding_def createProjectionLayer_def createQuadLayer_def
        new_XRRenderTarget_def updateRenderState_def
        split: option.splits ltype.splits)
qed

lemma updateNative_disc:
  assumes "heap_disc P" "P w" shows "P (snd (updateNative l w))"
proof -
  note [simp] = heap_discD [OF assms(1)]
  show ?thesis using assms(2)
    by (simp add: updateNative_def super_updateNative_def Let_def ok_def throw_def
        split: lclass.splits option.splits)
qed

lemma layer_update_disc:
  assumes "heap_disc P" "P w" shows "P (snd (layer_update l w))"
  using assms
  by (simp add: layer_update_def ok_def updateNative_disc split: option.splits)

lemma needUpdateTransform_disc:
  assumes "heap_disc P" "P w" shows "P (needUpdateTransform l w)"
  using assms by (simp add: needUpdateTransform_def heap_discD)

lemma destroyNative_disc:
  assumes "heap_disc P" "P w" shows "P (destroyNative l w)"
proof -
  note [simp] = heap_discD [OF assms(1)]
  show ?thesis using assms(2)
    by (simp add: destroyNative_def Let_def split: option.splits)
qed

lemma createFallbackLayers_disc:
  assumes "heap_disc P" "P w"
  shows "P (snd (createFallbackLayers l w))"
    and "heap (snd (createFallbackLayers l w)) = heap w"
    and "fst (createFallbackLayers l w) = Inr ms \<Longrightarrow> lclass (heap w l) = OGLQuadLayer"
  using assms
  by (simp_all add: createFallbackLayers_def heap_discD split: lclass.splits if_splits)

lemma createFallback_disc:
  assumes "heap_disc P" "P w" shows "P (snd (createFallback l w))"
proof (cases "emulatedLayers (heap w l)")
  case (Some ms)
  with assms(2) show ?thesis by (simp add: createFallback_def)
next
  case None
  obtain r v where c: "createFallbackLayers l w = (r, v)" by (cases "createFallbackLayers l w")
  from createFallbackLayers_disc(1,2) [OF assms, of l] c
  have v: "P v" "heap v = heap w" by simp_all
  show ?thesis
  proof (cases r)
    case (Inl e)
    with v show ?thesis by (simp add: createFallback_def None c andThen_def)
  next
    case (Inr ms)
    with createFallbackLayers_disc(3) [OF assms, of l ms] c
    have "lclass (heap v l) = OGLQuadLayer" by (simp add: v)
    with assms(1) v(1)
    have "P (upd l (\<lambda>L. L\<lparr>emulatedLayers := Some ms,
                       children := foldl addChild (children L) ms\<rparr>) v)"
      by (rule heap_discD(12))
    then show ?thesis by (simp add: createFallback_def None c Inr andThen_def)
  qed
qed

lemma destroyFallback_disc:
  assumes "heap_disc P" "P w" shows "P (destroyFallback l w)"
  using assms by (simp add: destroyFallback_def heap_discD split: option.splits)

lemma onLayerDestroy_r_disc:
  assumes "heap_disc P" "b \<or> layers_indep P" "P w"
  shows "P (snd (onLayerDestroy_r l b w))"
proof -
  let ?w1 = "if \<not> b then w\<lparr>layers := filter (\<lambda>e. l \<noteq> e) (layers w)\<rparr> else w"
  from assms(2,3) have 1: "P ?w1"
    by (auto simp: layers_indep_def)
  have 2: "P (snd (xr_onLayerDestroy n ?w1))" for n
    using assms(1) 1 by (rule xr_onLayerDestroy_disc)
  show ?thesis
    unfolding onLayerDestroy_r_def Let_def
    using 1 2 by (cases "nativeLayer (heap ?w1 l)") simp_all
qed

lemma call_onLayerDestroy_disc:
  assumes "heap_disc P" "b \<or> layers_indep P" "P w"
  shows "P (snd (call_onLayerDestroy l b w))"
  using assms
  by (simp add: call_onLayerDestroy_def onLayerDestroy_r_disc
      split: option.splits dcb.splits)

lemma notify_destroy_disc:
  assumes "heap_disc P" "b \<or> layers_indep P" "P w"
  shows "P (snd (andThen (call_onLayerDestroy l b w) (\<lambda>u w1. ok () (destroyNative l w1))))"
proof (rule andThen_pres [where P = P])
  show "P (snd (call_onLayerDestroy l b w))"
    using assms by (rule call_onLayerDestroy_disc)
next
  fix a v assume "P v"
  with assms(1) show "P (snd (ok () (destroyNative l v)))"
    by (simp add: destroyNative_disc)
qed

lemma bindLayer_disc:
  assumes "heap_disc P" "P w" shows "P (snd (bindLayer l n w))"
  unfolding bindLayer_def
proof (rule andThen_pres [where P = P])
  show "P (snd (case nativeLayer (heap w l) of
          None \<Rightarrow> ok () w
        | Some na \<Rightarrow>
            if Some na \<noteq> n
            then andThen (call_onLayerDestroy l True w) (\<lambda>u w1. ok () (destroyNative l w1))
            else ok () w))"
    using assms
    by (cases "nativeLayer (heap w l)") (simp_all add: notify_destroy_disc)
next
  fix a v assume "P v"
  with assms(1) show "P (snd (case n of None \<Rightarrow> createFallback l v
      | Some na \<Rightarrow> updateNative l (upd l (\<lambda>L. L\<lparr>nativeLayer := Some na\<rparr>) (destroyFallback l v))))"
    by (cases n)
       (simp_all add: createFallback_disc updateNative_disc destroyFallback_disc
          heap_discD)
qed

lemma layer_destroy_disc:
  assumes "heap_disc P" "layers_indep P" "P w" shows "P (snd (layer_destroy l w))"
  unfolding layer_destroy_def using assms by (simp add: notify_destroy_disc)

lemma bind_after_disc:
  assumes "heap_disc P" "P (snd r0)"
  shows "P (snd (case (case r0 of (Inr r, w2) \<Rightarrow> (r, w2)
                          | (Inl e, w2) \<Rightarrow> (None, log (LogError e) w2)) of
                   (n0, w3) \<Rightarrow> andThen (bindLayer l (as_XRCompositionLayer n0) w3)
                                 (\<lambda>u. ok (n0 \<noteq> None))))"
proof -
  have 2: "P (snd (andThen (bindLayer l x u) (\<lambda>u. ok y)))" if "P u" for x y u
  proof (rule andThen_pres [where P = P])
    from assms(1) that show "P (snd (bindLayer l x u))" by (rule bindLayer_disc)
  next
    fix a v assume "P v" then show "P (snd (ok y v))" by simp
  qed
  obtain a v where r0: "r0 = (a, v)" by (cases r0)
  with assms(2) have "P v" by simp
  with assms(1) show ?thesis
    by (cases a) (simp_all add: r0 2 heap_discD)
qed

lemma bindNativeLayerTo_disc:
  assumes "heap_disc P" "P w" shows "P (snd (bindNativeLayerTo l w))"
proof (cases "layersSupport w")
  case True
  have "P (snd (getLayer ty o'
      (upd l (\<lambda>L. L\<lparr>options := (options L)\<lparr>o_space := Some (space w)\<rparr>\<rparr>) w)))" for ty o'
    using assms by (simp add: getLayer_disc heap_discD)
  then show ?thesis
    unfolding bindNativeLayerTo_def Let_def
    by (simp only: True if_True) (rule bind_after_disc [OF assms(1)])
next
  case False
  have "P (snd (andThen (bindLayer l x w) (\<lambda>u. ok y)))" for x y
  proof (rule andThen_pres [where P = P])
    from assms show "P (snd (bindLayer l x w))" by (rule bindLayer_disc)
  next
    fix a v assume "P v" then show "P (snd (ok y v))" by simp
  qed
  with False show ?thesis
    by (simp add: bindNativeLayerTo_def)
qed

lemma registerLayer_disc:
  assumes "heap_disc P" "layers_indep P" "P w" shows "P (snd (registerLayer l w))"
  unfolding registerLayer_def Let_def
proof (rule andThen_pres [where P = P])
  show "P (snd (bindNativeLayerTo l
      (if l \<in> set (layers w) then w\<lparr>layers := remove1 l (layers w)\<rparr> else w)))"
    using assms by (simp add: bindNativeLayerTo_disc layers_indep_def)
next
  fix a v assume "P v"
  with assms(1)
  have "P (upd l (\<lambda>L. L\<lparr>onLayerDestroy := Some RendererOnLayerDestroy\<rparr>) v)"
    by (rule heap_discD)
  with assms(2) show "P (snd (ok (length (layers
      (upd l (\<lambda>L. L\<lparr>onLayerDestroy := Some RendererOnLayerDestroy\<rparr>) v
         \<lparr>layers := l # layers (upd l (\<lambda>L. L\<lparr>onLayerDestroy := Some RendererOnLayerDestroy\<rparr>) v)\<rparr>)))
      (upd l (\<lambda>L. L\<lparr>onLayerDestroy := Some RendererOnLayerDestroy\<rparr>) v
         \<lparr>layers := l # layers (upd l (\<lambda>L. L\<lparr>onLayerDestroy := Some RendererOnLayerDestroy\<rparr>) v)\<rparr>)))"
    by (simp add: layers_indep_def)
qed

lemma loop_stableD:
  assumes "loop_stable P"
  shows "P w \<Longrightarrow> P (log e w)"
    "P (w\<lparr>fresh := x1\<rparr>) = P w" "P (w\<lparr>clearLoopDel := x2\<rparr>) = P w"
    "P (w\<lparr>winPending := x3\<rparr>) = P w" "P (w\<lparr>sessPending := x4\<rparr>) = P w"
    "P (w\<lparr>rafCallbacks := x5\<rparr>) = P w" "P (w\<lparr>calbackID := x6\<rparr>) = P w"
    "P (w\<lparr>lastXRFrame := x7\<rparr>) = P w"
  using assms by (simp_all add: loop_stable_def)

lemma run_canceller_stable:
  assumes "loop_stable P" "P w" shows "P (run_canceller c w)"
proof -
  note [simp] = loop_stableD [OF assms(1)]
  show ?thesis using assms(2)
    by (simp add: run_canceller_def split: canceller.splits option.splits)
qed

lemma clearLoop_stable:
  assumes "loop_stable P" "P w" shows "P (clearLoop w)"
  using assms
  by (simp add: clearLoop_def run_canceller_stable loop_stableD split: option.splits)

lemma attachLoop_stable:
  assumes "loop_stable P" "P w" shows "P (snd (attachLoop w))"
proof -
  note [simp] = loop_stableD [OF assms(1)]
  from assms have "P (clearLoop w)" by (rule clearLoop_stable)
  then show ?thesis
    by (simp add: attachLoop_eq split: option.splits)
qed

lemma requestAnimationFrame_stable:
  assumes "loop_stable P" "P w" shows "P (snd (requestAnimationFrame c w))"
  using assms
  by (cases "clearLoopDel w")
     (simp_all add: requestAnimationFrame_attached requestAnimationFrame_detached
        attachLoop_stable loop_stableD)

lemma cancelAnimationFrame_stable:
  assumes "loop_stable P" "P w" shows "P (cancelAnimationFrame i w)"
  using assms by (simp add: cancelAnimationFrame_def loop_stableD)

lemma run_action_stable:
  assumes "loop_stable P" "P w" shows "P (snd (run_action a w))"
  using assms
  by (cases a)
     (simp_all add: run_action_def andThen_ok [OF requestAnimationFrame_ok]
        requestAnimationFrame_stable cancelAnimationFrame_stable loop_stableD)

lemma call_cbk_stable:
  assumes "loop_stable P" "P w" shows "P (snd (call_cbk c t f w))"
proof (cases c)
  case (Cb tag body)
  from assms have "P (log (Invoke tag t f) w)" by (simp add: loop_stableD)
  then show ?thesis
    unfolding Cb call_cbk_def cbk.case
    by (rule forEach_pres [where P = P, rotated]) (rule run_action_stable [OF assms(1)])
qed

lemma internalLoop_stable:
  assumes "loop_stable P" "P w" shows "P (snd (internalLoop t f w))"
  unfolding internalLoop_def Let_def
proof (rule andThen_pres [where P = P])
  from assms have "P (w\<lparr>rafCallbacks := []\<rparr>)" by (simp add: loop_stableD)
  then show "P (snd (forEach (\<lambda>c. call_cbk c t f) (map snd (rafCallbacks w))
      (w\<lparr>rafCallbacks := []\<rparr>)))"
    by (rule forEach_pres [where P = P, rotated]) (rule call_cbk_stable [OF assms(1)])
next
  fix a v assume "P v"
  with assms(1) show "P (snd (attachLoop v))" by (rule attachLoop_stable)
qed

lemma call_frame_cb_stable:
  assumes "loop_stable P" "P w" shows "P (snd (call_frame_cb c t f w))"
  using assms
  by (cases c) (simp_all add: call_frame_cb_def internalLoop_stable call_cbk_stable)

lemma xr_frame_wrapper_stable:
  assumes "loop_stable P" "P w" shows "P (snd (xr_frame_wrapper c t f w))"
  using assms
  by (simp add: xr_frame_wrapper_def andThen_ok [OF call_frame_cb_ok] call_frame_cb_stable
      loop_stableD)

lemma callee_presD:
  assumes "callee_pres P"
  shows "P v \<Longrightarrow> P (log e v)" "P v \<Longrightarrow> P (clearLoop v)" "P v \<Longrightarrow> P (snd (attachLoop v))"
    "P v \<Longrightarrow> P (snd (bindLayer l n v))" "P v \<Longrightarrow> P (snd (getLayer ty opt v))"
    "P v \<Longrightarrow> P (snd (bindNativeLayerTo l v))"
  using assms by (simp_all add: callee_pres_def)

lemma report_pres:
  assumes "callee_pres P" "P (snd r)" shows "P (report r)"
proof -
  obtain a v where r: "r = (a, v)" by (cases r)
  with assms show ?thesis
    by (cases a) (simp_all add: report_def callee_presD)
qed

lemma onSessionLost_pres:
  assumes "callee_pres P" "P w" shows "P (snd (onSessionLost w))"
  unfolding onSessionLost_def Let_def
proof (rule andThen_pres [where P = P])
  from assms have "P (clearLoop w)" by (simp add: callee_presD)
  then show "P (snd (forEach (\<lambda>l. bindLayer l None) (layers (clearLoop w)) (clearLoop w)))"
    by (rule forEach_pres [where P = P, rotated]) (rule callee_presD(4) [OF assms(1)])
next
  fix a v assume v: "P v"
  show "P (snd (andThen (attachLoop v) (\<lambda>u w3. ok () (log (Warn ''XR Session end'') w3))))"
  proof (rule andThen_pres [where P = P])
    from assms(1) v show "P (snd (attachLoop v))" by (rule callee_presD)
  next
    fix a u assume "P u"
    with assms(1) show "P (snd (ok () (log (Warn ''XR Session end'') u)))"
      by (simp add: callee_presD)
  qed
qed

lemma onSessionStart_pres:
  assumes "callee_pres P" "P w" shows "P (snd (onSessionStart w))"
  unfolding onSessionStart_def
proof (rule andThen_pres [where P = P])
  from assms show "P (snd (attachLoop w))" by (rule callee_presD)
next
  fix a v assume v: "P v"
  show "P (snd (andThen (getLayer TBase None v)
      (\<lambda>r w2. forEach (\<lambda>l v. andThen (bindNativeLayerTo l v) (\<lambda>b. ok ())) (layers w2) w2)))"
  proof (rule andThen_pres [where P = P])
    from assms(1) v show "P (snd (getLayer TBase None v))" by (rule callee_presD)
  next
    fix r u assume u: "P u"
    then show "P (snd (forEach (\<lambda>l v. andThen (bindNativeLayerTo l v) (\<lambda>b. ok ())) (layers u) u))"
    proof (rule forEach_pres [where P = P, rotated])
      fix l x assume x: "P x"
      show "P (snd (andThen (bindNativeLayerTo l x) (\<lambda>b. ok ())))"
      proof (rule andThen_pres [where P = P])
        from assms(1) x show "P (snd (bindNativeLayerTo l x))" by (rule callee_presD)
      next
        fix b y assume "P y" then show "P (snd (ok () y))" by simp
      qed
    qed
  qed
qed

lemma dispatchEvent_pres:
  assumes "callee_pres P" "P w" shows "P (dispatchEvent e w)"
proof -
  from assms have 1: "P (log (Dispatch e') w)" for e' by (simp add: callee_presD)
  show ?thesis
    by (cases e)
       (simp_all add: dispatchEvent_def Let_def 1 report_pres [OF assms(1)]
          onSessionStart_pres [OF assms(1)] onSessionLost_pres [OF assms(1)])
qed

lemma onInputChanged_pres:
  assumes "callee_pres P" "P w" shows "P (onInputChanged w)"
  using assms by (simp add: onInputChanged_def dispatchEvent_pres)

lemma sess_stableD:
  assumes "sess_stable P"
  shows "P (w\<lparr>session := x1\<rparr>) = P w" "P (w\<lparr>space := x2\<rparr>) = P w"
    "P (w\<lparr>listeners := x3\<rparr>) = P w" "P (w\<lparr>hostLive := x4\<rparr>) = P w"
    "P (w\<lparr>endQueue := x5\<rparr>) = P w" "P (w\<lparr>layersSupport := x6\<rparr>) = P w"
    "P (w\<lparr>xr_layers := x7\<rparr>) = P w" "P (w\<lparr>baseLayer := x8\<rparr>) = P w"
    "P (w\<lparr>baseLayerTarget := x9\<rparr>) = P w" "P (w\<lparr>glBinding := x10\<rparr>) = P w"
    "P (w\<lparr>fresh := x11\<rparr>) = P w"
  using assms by (simp_all add: sess_stable_def)

lemma log_list_pres:
  assumes "callee_pres P" "P w" shows "P (w\<lparr>trace := trace w @ es\<rparr>)"
proof (induction es rule: rev_induct)
  case Nil
  from assms(2) show ?case by simp
next
  case (snoc e es)
  from callee_presD(1) [OF assms(1) snoc.IH, of e] show ?case
    by (simp add: log_def)
qed

lemma clear_pres:
  assumes "sess_stable P" "callee_pres P" "P w" shows "P (clear w)"
proof (cases "session w")
  case None
  with assms(3) show ?thesis by (simp add: clear_inactive)
next
  case (Some s)
  let ?es = "map Destroyed (comp_of (xr_layers w))
       @ (case baseLayerTarget w of None \<Rightarrow> [] | Some t \<Rightarrow> [TargetDestroyed t])
       @ map Destroyed (comp_of (case baseLayer w of None \<Rightarrow> [] | Some b \<Rightarrow> [b]))"
  have "clear w = (w\<lparr>trace := trace w @ ?es\<rparr>)
      \<lparr>listeners := filter (\<lambda>x. x \<noteq> (s, ''inputsourceschange'', bound_onInputChanged w))
                       (filter (\<lambda>x. x \<noteq> (s, ''end'', bound_onEnd w)) (listeners w)),
       xr_layers := [], session := None, space := None,
       baseLayerTarget := None, baseLayer := None, glBinding := None\<rparr>"
    by (simp add: clear_active [OF Some])
  then show ?thesis
    using log_list_pres [OF assms(2,3), of ?es]
    by (simp add: sess_stableD [OF assms(1)])
qed

lemma onEnd_pres:
  assumes "sess_stable P" "callee_pres P" "P w" shows "P (onEnd w)"
  using assms by (simp add: onEnd_def dispatchEvent_pres onInputChanged_pres clear_pres)

lemma host_session_end_pres:
  assumes "sess_stable P" "callee_pres P" "P w" shows "P (host_session_end s w)"
  using assms by (simp add: host_session_end_def Let_def sess_stableD callee_presD)

lemma xr_end_pres:
  assumes "sess_stable P" "callee_pres P" "P w" shows "P (xr_end w)"
  using assms
  by (simp add: xr_end_def host_session_end_pres onInputChanged_pres clear_pres
      split: option.splits)

lemma init_pres:
  assumes "sess_stable P" "callee_pres P" "P w" shows "P (init s sp w)"
proof -
  note [simp] = sess_stableD [OF assms(1)]
  have 1: "P (if session w \<noteq> None then clear w else w)"
    using assms by (simp add: clear_pres)
  show ?thesis
    unfolding init_def Let_def bind_fn_def addEventListener_def
    using 1 by (simp add: dispatchEvent_pres [OF assms(2)] split: if_splits)
qed

lemma requestSession_begin_pres:
  assumes "sess_stable P" "callee_pres P" "P w" shows "P (requestSession_begin w)"
  using assms by (simp add: requestSession_begin_def callee_presD xr_end_pres)

lemma requestSession_settle_pres:
  assumes "sess_stable P" "callee_pres P" "P w" shows "P (snd (requestSession_settle out w))"
  using assms
  by (cases out)
     (simp_all add: requestSession_settle_def init_pres callee_presD sess_stableD)

lemma requestXR_enter_pres:
  assumes "sess_stable P" "callee_pres P" "P w" shows "P (snd (requestXR_enter c w))"
  using assms
  by (simp add: requestXR_enter_def Let_def requestSession_begin_pres callee_presD)

lemma requestXR_settle_pres:
  assumes "sess_stable P" "callee_pres P" "P w" shows "P (snd (requestXR_settle out w))"
proof -
  obtain r v where 1: "requestSession_settle out w = (r, v)" by (cases "requestSession_settle out w")
  with requestSession_settle_pres [OF assms, of out] have v: "P v" by simp
  obtain u where 2: "attachLoop v = (Inr (), u)"
    using attachLoop_ok [of v] by (cases "attachLoop v") simp
  with callee_presD(3) [OF assms(2) v] have "P u" by simp
  then show ?thesis by (simp add: requestXR_settle_def 1 2)
qed

lemma requestXR_pres:
  assumes "sess_stable P" "callee_pres P" "P w" shows "P (snd (requestXR c out w))"
  unfolding requestXR_def
proof (rule andThen_pres [where P = P])
  from assms show "P (snd (requestXR_enter c w))" by (rule requestXR_enter_pres)
next
  fix a v assume "P v"
  with assms(1,2) show "P (snd (case a of Done \<Rightarrow> ok () v | Negotiating \<Rightarrow> requestXR_settle out v))"
    by (cases a) (simp_all add: requestXR_settle_pres)
qed

lemma call_fn_pres:
  assumes "sess_stable P" "callee_pres P" "P w" shows "P (call_fn f w)"
  using assms by (simp add: call_fn_def onEnd_pres onInputChanged_pres split: fn.splits)

lemma foldl_call_fn_pres:
  assumes "sess_stable P" "callee_pres P" "P w" shows "P (foldl (\<lambda>v f. call_fn f v) w fs)"
  using assms(3) by (induction fs arbitrary: w) (simp_all add: call_fn_pres [OF assms(1,2)])

lemma fire_pres:
  assumes "sess_stable P" "callee_pres P" "P w" shows "P (fire s ty w)"
  unfolding fire_def using assms by (rule foldl_call_fn_pres)

lemma upd_presD:
  assumes "upd_pres P"
  shows "P v \<Longrightarrow> P (snd (layer_update l v))" "P v \<Longrightarrow> P (needUpdateTransform l v)"
  using assms by (simp_all add: upd_pres_def)

lemma reg_presD:
  assumes "reg_pres P"
  shows "P v \<Longrightarrow> P (snd (registerLayer l v))" "P v \<Longrightarrow> P (snd (layer_destroy l v))"
    "P v \<Longrightarrow> P (snd (new_layer c opt v))"
  using assms by (simp_all add: reg_pres_def)

lemma callee_pres_layer:
  assumes "heap_disc P" "loop_stable P" shows "callee_pres P"
  using assms
  by (simp add: callee_pres_def heap_discD clearLoop_stable attachLoop_stable
      bindLayer_disc getLayer_disc bindNativeLayerTo_disc)

lemma upd_pres_layer:
  assumes "heap_disc P" shows "upd_pres P"
  using assms by (simp add: upd_pres_def layer_update_disc needUpdateTransform_disc)

lemma reg_pres_layer:
  assumes "heap_disc P" "layers_indep P" "\<And>c opt v. P v \<Longrightarrow> P (snd (new_layer c opt v))"
  shows "reg_pres P"
  using assms by (simp add: reg_pres_def registerLayer_disc layer_destroy_disc)

lemma windowFrame_pres:
  assumes "loop_stable P" "callee_pres P" "windowFrame i t w = Some w'" "P w" shows "P w'"
proof -
  from assms(3) have w': "w' = report (internalLoop t None
      (w\<lparr>winPending := filter (\<lambda>j. j \<noteq> i) (winPending w)\<rparr>))"
    by (simp add: windowFrame_def split: if_splits)
  from assms(1,4) have "P (w\<lparr>winPending := filter (\<lambda>j. j \<noteq> i) (winPending w)\<rparr>)"
    by (simp add: loop_stableD)
  with assms(1) have "P (snd (internalLoop t None
      (w\<lparr>winPending := filter (\<lambda>j. j \<noteq> i) (winPending w)\<rparr>)))"
    by (rule internalLoop_stable)
  with assms(2) show ?thesis unfolding w' by (rule report_pres)
qed

lemma sessionFrame_pres:
  assumes "loop_stable P" "callee_pres P" "sessionFrame i t f w = Some w'" "P w" shows "P w'"
proof -
  from assms(3) obtain c v where w': "w' = report (xr_frame_wrapper c t f v)"
    and v: "v = w\<lparr>sessPending := filter (\<lambda>p. \<not> (fst p = the (hostLive w) \<and> fst (snd p) = i))
                (sessPending w)\<rparr>"
    by (auto simp: sessionFrame_def split: option.splits)
  from assms(1,4) have "P v" unfolding v by (simp add: loop_stableD)
  with assms(1) have "P (snd (xr_frame_wrapper c t f v))" by (rule xr_frame_wrapper_stable)
  with assms(2) show ?thesis unfolding w' by (rule report_pres)
qed

lemma step_pres_other:
  assumes "sess_stable P" "loop_stable P" "callee_pres P" "upd_pres P"
    and "\<not> layer_call e" "step e w = Some w'" "P w"
  shows "P w'"
proof (cases e)
  case (CallRaf c)
  with assms show ?thesis by (auto simp: step_def requestAnimationFrame_stable)
next
  case (CallCancel i)
  with assms show ?thesis by (auto simp: step_def cancelAnimationFrame_stable)
next
  case (WindowFrame i t)
  with assms(6) have "windowFrame i t w = Some w'" by (simp add: step_def)
  with assms(2,3) show ?thesis using assms(7) by (rule windowFrame_pres)
next
  case (SessionFrame i t f)
  with assms(6) have "sessionFrame i t f w = Some w'" by (simp add: step_def)
  with assms(2,3) show ?thesis using assms(7) by (rule sessionFrame_pres)
next
  case (CallRequestXR c)
  with assms show ?thesis by (auto simp: step_def requestXR_enter_pres)
next
  case AfterCompat
  with assms show ?thesis
    by (auto simp: step_def requestSession_begin_pres callee_presD)
next
  case (Settle out)
  with assms show ?thesis
    by (auto simp: step_def requestXR_settle_pres split: if_splits)
next
  case HostEnd
  with assms show ?thesis
    by (auto simp: step_def hostEnd_def fire_pres sess_stableD split: option.splits)
next
  case CallEnd
  with assms show ?thesis by (auto simp: step_def xr_end_pres)
next
  case DeliverEnd
  with assms show ?thesis
    by (auto simp: step_def deliverEnd_def fire_pres sess_stableD split: list.splits)
next
  case (NewLayer c opt)
  with assms(5) show ?thesis by (simp add: layer_call_def)
next
  case (CallRegister l)
  with assms(5) show ?thesis by (simp add: layer_call_def)
next
  case (CallDestroy l)
  with assms(5) show ?thesis by (simp add: layer_call_def)
next
  case (CallBind l n)
  with assms show ?thesis by (auto simp: step_def callee_presD split: if_splits)
next
  case (CallUpdate l)
  with assms show ?thesis by (auto simp: step_def upd_presD split: if_splits)
next
  case (CallNeedUpdate l)
  with assms show ?thesis by (auto simp: step_def upd_presD split: if_splits)
qed

lemma step_pres:
  assumes "sess_stable P" "loop_stable P" "callee_pres P" "upd_pres P" "reg_pres P"
    and "step e w = Some w'" "P w"
  shows "P w'"
proof (cases "layer_call e")
  case False
  from step_pres_other [OF assms(1-4) False assms(6,7)] show ?thesis .
next
  case True
  with assms(5,6,7) show ?thesis
    by (cases e) (auto simp: layer_call_def step_def reg_presD split: if_splits)
qed

lemma run_pres:
  assumes "sess_stable P" "loop_stable P" "callee_pres P" "upd_pres P" "reg_pres P"
  shows "run es w = Some w' \<Longrightarrow> P w \<Longrightarrow> P w'"
proof (induction es arbitrary: w)
  case Nil
  then show ?case by simp
next
  case (Cons e es)
  from Cons.prems(1) obtain w1 where 1: "step e w = Some w1" and 2: "run es w1 = Some w'"
    by (auto split: option.splits)
  from step_pres [OF assms 1 Cons.prems(2)] have "P w1" .
  with Cons.IH [OF 2] show ?case .
qed

text \<open>A predicate that depends on the heap of layer objects only, holds of a new renderer and
  of every new object, and survives the updates the layer operations make, holds in every
  reachable state.\<close>

lemma reachable_pres:
  assumes "sess_stable P" "loop_stable P" "heap_disc P" "layers_indep P"
    and "\<And>c opt v. P v \<Longrightarrow> P (snd (new_layer c opt v))"
    and "P initial" "reachable w"
  shows "P w"
proof -
  from assms(7) obtain es where "run es initial = Some w" by (auto simp: reachable_def)
  note r = run_pres [OF assms(1,2) callee_pres_layer [OF assms(3,2)]
      upd_pres_layer [OF assms(3)] reg_pres_layer [OF assms(3,4)]]
  from r [OF assms(5) \<open>run es initial = Some w\<close> assms(6)] show ?thesis .
qed

section \<open>requestXR and the loop\<close>

lemma grows_from_stable:
  "heap_disc (grows_from tr)" "loop_stable (grows_from tr)" "sess_stable (grows_from tr)"
  by (auto simp: heap_disc_def loop_stable_def sess_stable_def grows_from_def log_def upd_def)

lemma grows_from_callee: "callee_pres (grows_from tr)"
  by (rule callee_pres_layer) (rule grows_from_stable)+

lemma attachLoop_pending: "has_pending_request (snd (attachLoop w))"
  by (simp add: attachLoop_eq has_pending_request_def log_def clearLoop_fields
      split: option.splits)

lemma requestXR_settle_result:
  "requestXR_settle out w =
     (fst (requestSession_settle out w), snd (attachLoop (snd (requestSession_settle out w))))"
proof -
  obtain r v where 1: "requestSession_settle out w = (r, v)" by (cases "requestSession_settle out w")
  obtain u where 2: "attachLoop v = (Inr (), u)"
    using attachLoop_ok [of v] by (cases "attachLoop v") simp
  show ?thesis by (simp add: requestXR_settle_def 1 2)
qed

lemma requestSession_settle_fst:
  "fst (requestSession_settle out w) =
     (case out of Granted s b sp \<Rightarrow> Inr () | SessionDeclined \<Rightarrow> Inl Rejected
      | SpaceDeclined s b \<Rightarrow> Inl Rejected)"
  by (cases out) (simp_all add: requestSession_settle_def)

lemma requestXR_enter_inactive:
  "session w = None \<Longrightarrow>
   requestXR_enter True w =
     (Inr Negotiating, log HostRequestSession (clearLoop (log MakeXRCompatible w)))"
  by (simp add: requestXR_enter_def active_def Let_def ok_def requestSession_begin_def
      clearLoop_fields log_def clearLoop_def run_canceller_def split: option.splits canceller.splits)

lemma requestXR_enter_trace:
  "session w = None \<Longrightarrow>
   trace (snd (requestXR_enter True w)) =
     trace w @ MakeXRCompatible # cancel_trace w @ [HostRequestSession]"
  by (simp add: requestXR_enter_inactive log_def clearLoop_fields cancel_trace_def
      split: option.splits canceller.splits)

text \<open>
  C8 (as amended). With a session active \<open>requestXR\<close> returns at once and changes nothing.
  Without one: if \<open>makeXRCompatible\<close> rejects, \<open>requestXR\<close> rejects and has touched neither
  the loop nor the session; if it resolves, the loop is paused (the stored handle is called
  and dropped) before the host is asked for a session, the result is the negotiation's
  (a rejection reaches the caller), and whatever the negotiation gave, the last thing
  \<open>requestXR\<close> does is to request a frame: when it settles, the stored handle belongs to
  a request pending on the session, if one was granted, or on the display.
\<close>

theorem requestXR_loop:
  "(active w \<longrightarrow> requestXR compatible out w = (Inr (), w)) \<and>
   (\<not> active w \<longrightarrow>
      requestXR False out w = (Inl Rejected, log MakeXRCompatible w) \<and>
      clearLoopDel (snd (requestXR_enter True w)) = None \<and>
      trace (snd (requestXR_enter True w)) =
        trace w @ MakeXRCompatible # cancel_trace w @ [HostRequestSession] \<and>
      fst (requestXR True out w) =
        (case out of Granted s b sp \<Rightarrow> Inr () | SessionDeclined \<Rightarrow> Inl Rejected
         | SpaceDeclined s b \<Rightarrow> Inl Rejected) \<and>
      (\<exists>es. trace (snd (requestXR True out w)) =
         trace w @ MakeXRCompatible # cancel_trace w @ HostRequestSession # es @
           [last (trace (snd (requestXR True out w)))]) \<and>
      is_request (last (trace (snd (requestXR True out w)))) \<and>
      has_pending_request (snd (requestXR True out w)))"
proof (cases "session w")
  case (Some s)
  then show ?thesis
    by (simp add: active_def requestXR_def requestXR_enter_def andThen_def ok_def)
next
  case None
  let ?w1 = "snd (requestXR_enter True w)"
  let ?v = "snd (requestSession_settle out ?w1)"
  have e: "requestXR_enter True w = (Inr Negotiating, ?w1)"
    by (simp add: requestXR_enter_inactive [OF None])
  have x: "requestXR True out w = requestXR_settle out ?w1"
    unfolding requestXR_def by (subst e) (simp add: andThen_def)
  have a: "requestXR False out w = (Inl Rejected, log MakeXRCompatible w)"
    using None by (simp add: requestXR_def requestXR_enter_def active_def andThen_def throw_def)
  have b: "clearLoopDel ?w1 = None"
    by (simp add: requestXR_enter_inactive [OF None] log_def clearLoop_fields)
  have c: "trace ?w1 = trace w @ MakeXRCompatible # cancel_trace w @ [HostRequestSession]"
    using None by (rule requestXR_enter_trace)
  have d: "fst (requestXR True out w) =
        (case out of Granted s b sp \<Rightarrow> Inr () | SessionDeclined \<Rightarrow> Inl Rejected
         | SpaceDeclined s b \<Rightarrow> Inl Rejected)"
    by (simp add: x requestXR_settle_result requestSession_settle_fst)
  have "grows_from (trace ?w1) ?w1" by (simp add: grows_from_def)
  then have "grows_from (trace ?w1) ?v"
    by (rule requestSession_settle_pres [OF grows_from_stable(3) grows_from_callee])
  then obtain es where es: "trace ?v = trace ?w1 @ es" by (auto simp: grows_from_def)
  have t: "trace (snd (requestXR True out w)) =
      trace ?w1 @ es @ cancel_trace ?v @ [request_event ?v]"
    by (simp add: x requestXR_settle_result attachLoop_fields es)
  have f: "\<exists>es. trace (snd (requestXR True out w)) =
         trace w @ MakeXRCompatible # cancel_trace w @ HostRequestSession # es @
           [last (trace (snd (requestXR True out w)))]"
    by (rule exI [of _ "es @ cancel_trace ?v"]) (simp add: t c)
  have g: "is_request (last (trace (snd (requestXR True out w))))"
    by (simp add: t cancel_request_kinds)
  have h: "has_pending_request (snd (requestXR True out w))"
    by (simp add: x requestXR_settle_result attachLoop_pending)
  from None a b c d f g h show ?thesis
    by (simp add: active_def)
qed

theorem requestXR_loop_witness:
  "requestXR True (Granted 50 True 60) initial = (Inr (), layers_started) \<and>
   has_pending_request (snd (requestXR True (Granted 50 True 60) initial)) \<and>
   is_request (last (trace (snd (requestXR True (Granted 50 True 60) initial)))) \<and>
   requestXR True SessionDeclined layers_started = (Inr (), layers_started)"
proof -
  have 1: "\<not> active initial" by (simp add: active_def initial_def)
  have 2: "active layers_started" by (simp add: active_def layers_started_fields)
  from requestXR_loop [of initial True "Granted 50 True 60"]
    requestXR_loop [of layers_started True SessionDeclined] 1 2
  show ?thesis by (simp add: layers_started_reached)
qed

text \<open>
  C8 as stated fails: on a new renderer, whose loop was never started, a \<open>requestXR\<close> whose
  \<open>makeXRCompatible\<close> rejects settles (rejected) with no frame request pending anywhere.
\<close>

theorem requestXR_not_always_pending:
  "fst (requestXR False SessionDeclined initial) = Inl Rejected \<and>
   \<not> has_pending_request (snd (requestXR False SessionDeclined initial)) \<and>
   winPending (snd (requestXR False SessionDeclined initial)) = [] \<and>
   sessPending (snd (requestXR False SessionDeclined initial)) = [] \<and>
   trace (snd (requestXR False SessionDeclined initial)) = [MakeXRCompatible]"
  by (simp add: requestXR_def requestXR_enter_def active_def andThen_def throw_def
      has_pending_request_def log_def initial_def)

section \<open>The dirty flag\<close>

lemma always_dirty_stable:
  "heap_disc always_dirty" "loop_stable always_dirty" "sess_stable always_dirty"
  "layers_indep always_dirty"
  by (auto simp: heap_disc_def loop_stable_def sess_stable_def layers_indep_def
      always_dirty_def log_def upd_def)

lemma always_dirty_new: "always_dirty v \<Longrightarrow> always_dirty (snd (new_layer c opt v))"
  by (simp add: always_dirty_def new_layer_def)

lemma always_dirty_initial: "always_dirty initial"
  by (simp add: always_dirty_def initial_def)

lemma reachable_dirty: "reachable w \<Longrightarrow> transformDirty (heap w l)"
  using reachable_pres [OF always_dirty_stable(3,2,1,4) always_dirty_new always_dirty_initial]
  by (simp add: always_dirty_def)

lemma bound_object_reached:
  "run [NewLayer c plain_opts, CallBind 0 (Some (XRQuadLayer 7))] initial = Some (bound_object c)"
  by (cases c) (simp_all add: step_def new_layer_def bindLayer_def initial_def andThen_def ok_def
      destroyFallback_def upd_def updateNative_def super_updateNative_def bound_object_def)

lemma bound_object_reachable: "reachable (bound_object c)"
  unfolding reachable_def using bound_object_reached by blast

lemma layer_update_native:
  assumes "transformDirty (heap w l)" "nativeLayer (heap w l) = Some n"
  shows "fst (layer_update l w) = Inr ()"
    and "nativeTransform (heap (snd (layer_update l w)) l) = Some (fresh w)"
    and "fresh (snd (layer_update l w)) = Suc (fresh w)"
    and "transformOf (snd (layer_update l w)) n =
           (case lclass (heap w l) of OGLQuadLayer \<Rightarrow> Some (fresh w)
            | OGLXRLayer \<Rightarrow> transformOf w n)"
  using assms
  by (simp_all add: layer_update_def updateNative_def super_updateNative_def upd_def ok_def
      Let_def split: lclass.splits)

text \<open>
  C10 (as amended). In every reachable state the dirty flag of every layer object is set:
  nothing clears it. So for a layer that holds a native handle \<open>update()\<close> returns normally
  and constructs a new \<open>XRRigidTransform\<close> each time, the guard of \<open>_updateNative\<close> never
  skipping the construction, and leaves the flag set. An \<open>OGLQuadLayer\<close> assigns the new
  transform to its native layer; an object of the generic class \<open>OGLXRLayer\<close> keeps it in
  \<open>nativeTransform\<close> and leaves the native layer's transform as it was.
\<close>

theorem update_always_recomputes:
  assumes "reachable w" "nativeLayer (heap w l) = Some n"
  shows "transformDirty (heap w l) \<and>
         fst (layer_update l w) = Inr () \<and>
         nativeTransform (heap (snd (layer_update l w)) l) = Some (fresh w) \<and>
         fresh (snd (layer_update l w)) = Suc (fresh w) \<and>
         transformDirty (heap (snd (layer_update l w)) l) \<and>
         transformOf (snd (layer_update l w)) n =
           (case lclass (heap w l) of OGLQuadLayer \<Rightarrow> Some (fresh w)
            | OGLXRLayer \<Rightarrow> transformOf w n)"
proof -
  have d: "transformDirty (heap w l)" using assms(1) by (rule reachable_dirty)
  have "transformDirty (heap (snd (layer_update l w)) l)"
    using d assms(2)
    by (simp add: layer_update_def updateNative_def super_updateNative_def upd_def ok_def
        Let_def split: lclass.splits)
  with d layer_update_native [OF d assms(2)] show ?thesis by simp
qed

lemma bound_object_fields:
  "transformDirty (heap (bound_object c) 0)"
  "nativeLayer (heap (bound_object c) 0) = Some (XRQuadLayer 7)"
  "nativeTransform (heap (bound_object c) 0) = Some 2"
  "lclass (heap (bound_object c) 0) = c"
  "fresh (bound_object c) = 3"
  "transformOf (bound_object OGLXRLayer) (XRQuadLayer 7) = None"
  by (simp_all add: bound_object_def)

theorem update_always_recomputes_witness:
  "reachable (bound_object OGLQuadLayer) \<and>
   nativeLayer (heap (bound_object OGLQuadLayer) 0) = Some (XRQuadLayer 7) \<and>
   nativeTransform (heap (bound_object OGLQuadLayer) 0) = Some 2 \<and>
   nativeTransform (heap (snd (layer_update 0 (bound_object OGLQuadLayer))) 0) = Some 3 \<and>
   transformOf (snd (layer_update 0 (bound_object OGLQuadLayer))) (XRQuadLayer 7) = Some 3"
  using update_always_recomputes [OF bound_object_reachable bound_object_fields(2),
      of OGLQuadLayer]
  by (simp add: bound_object_reachable bound_object_fields)

text \<open>
  C10 as stated fails for the generic class: an \<open>OGLXRLayer\<close> bound to a native layer by
  \<open>bindLayer\<close> constructs a new transform on \<open>update()\<close>, but \<open>OGLXRLayer._updateNative\<close>
  does not assign it to the native layer, whose transform stays unset.
\<close>

theorem update_generic_no_push:
  "reachable (bound_object OGLXRLayer) \<and>
   nativeLayer (heap (bound_object OGLXRLayer) 0) = Some (XRQuadLayer 7) \<and>
   fst (layer_update 0 (bound_object OGLXRLayer)) = Inr () \<and>
   nativeTransform (heap (snd (layer_update 0 (bound_object OGLXRLayer))) 0) = Some 3 \<and>
   transformOf (snd (layer_update 0 (bound_object OGLXRLayer))) (XRQuadLayer 7) = None"
  using layer_update_native [OF bound_object_fields(1,2), of OGLXRLayer]
  by (simp add: bound_object_reachable bound_object_fields)

section \<open>The registry\<close>

lemma heap_ok_stable:
  "heap_disc (heap_ok A k)" "loop_stable (heap_ok A k)" "sess_stable (heap_ok A k)"
  "layers_indep (heap_ok A k)"
  by (auto simp: heap_disc_def loop_stable_def sess_stable_def layers_indep_def
      heap_ok_def generic_ok_def owned_def log_def upd_def)

lemma is_class_stable: "heap_disc (is_class l c)"
  by (auto simp: heap_disc_def is_class_def log_def upd_def)

lemma has_layers_stable:
  "heap_disc (has_layers c)" "loop_stable (has_layers c)" "sess_stable (has_layers c)"
  by (auto simp: heap_disc_def loop_stable_def sess_stable_def has_layers_def log_def upd_def)

lemma bindLayer_quad_ok:
  assumes "lclass (heap w l) = OGLQuadLayer"
  shows "fst (bindLayer l x w) = Inr ()"
proof -
  obtain w1 where c: "call_onLayerDestroy l True w = (Inr (), w1)" and h: "heap w1 = heap w"
    by (rule call_onLayerDestroy_result)
  from assms show ?thesis
    by (cases "nativeLayer (heap w l)"; cases x)
       (simp_all add: bindLayer_def andThen_def ok_def throw_def c h createFallback_def
          createFallbackLayers_def updateNative_def super_updateNative_def upd_def
          destroyNative_def destroyFallback_def Let_def log_def split: option.splits)
qed

lemma bindLayer_generic_throws:
  assumes "is_class l OGLXRLayer w"
  shows "fst (bindLayer l None w) = Inl NotImplemented"
proof -
  obtain w1 where c: "call_onLayerDestroy l True w = (Inr (), w1)" and h: "heap w1 = heap w"
    by (rule call_onLayerDestroy_result)
  from assms show ?thesis
    by (cases "nativeLayer (heap w l)")
       (simp_all add: bindLayer_def andThen_def ok_def throw_def c h createFallback_def
          createFallbackLayers_def is_class_def
          destroyNative_def Let_def split: option.splits)
qed

lemma getLayer_TNone:
  "as_XRCompositionLayer (case fst (getLayer TNone opt w) of Inr r \<Rightarrow> r | Inl e \<Rightarrow> None) = None"
  by (auto simp: getLayer_def Let_def andThen_def ok_def throw_def new_XRWebGLBinding_def
      as_XRCompositionLayer_def split: option.splits)

lemma bindNativeLayerTo_quad_ok:
  assumes "lclass (heap w l) = OGLQuadLayer"
  shows "\<exists>b. fst (bindNativeLayerTo l w) = Inr b"
proof -
  have 1: "\<exists>b. fst (andThen (bindLayer l x v) (\<lambda>u. ok y)) = Inr b"
    if "is_class l OGLQuadLayer v" for x y v
  proof -
    from that have "fst (bindLayer l x v) = Inr ()"
      by (simp add: bindLayer_quad_ok is_class_def)
    then show ?thesis by (cases "bindLayer l x v") (simp add: andThen_def ok_def)
  qed
  from assms have q: "is_class l OGLQuadLayer w" by (simp add: is_class_def)
  show ?thesis
  proof (cases "layersSupport w")
    case False
    with 1 [OF q] show ?thesis by (simp add: bindNativeLayerTo_def)
  next
    case True
    let ?w1 = "upd l (\<lambda>L. L\<lparr>options := (options L)\<lparr>o_space := Some (space w)\<rparr>\<rparr>) w"
    obtain r v where g: "getLayer (classType (lclass (heap ?w1 l))) (Some (options (heap ?w1 l))) ?w1
        = (r, v)" by (cases "getLayer (classType (lclass (heap ?w1 l))) (Some (options (heap ?w1 l))) ?w1")
    from q have "is_class l OGLQuadLayer ?w1"
      by (rule heap_discD(14) [OF is_class_stable])
    then have "is_class l OGLQuadLayer (snd (getLayer (classType (lclass (heap ?w1 l)))
        (Some (options (heap ?w1 l))) ?w1))"
      by (rule getLayer_disc [OF is_class_stable])
    with g have v: "is_class l OGLQuadLayer v" by simp
    then have v': "is_class l OGLQuadLayer (log e v)" for e
      by (rule heap_discD(1) [OF is_class_stable])
    show ?thesis
      unfolding bindNativeLayerTo_def Let_def
      by (simp only: True if_True g) (cases r; simp add: 1 v v')
  qed
qed

lemma bindNativeLayerTo_generic_throws:
  assumes "is_class l OGLXRLayer w"
  shows "fst (bindNativeLayerTo l w) = Inl NotImplemented"
proof -
  have 1: "fst (andThen (bindLayer l None v) (\<lambda>u. ok y)) = Inl NotImplemented"
    if "is_class l OGLXRLayer v" for y v
    using bindLayer_generic_throws [OF that]
    by (cases "bindLayer l None v") (simp add: andThen_def)
  show ?thesis
  proof (cases "layersSupport w")
    case False
    with 1 [OF assms] show ?thesis
      by (simp add: bindNativeLayerTo_def as_XRCompositionLayer_def)
  next
    case True
    let ?w1 = "upd l (\<lambda>L. L\<lparr>options := (options L)\<lparr>o_space := Some (space w)\<rparr>\<rparr>) w"
    from assms have c: "lclass (heap ?w1 l) = OGLXRLayer" by (simp add: is_class_def)
    obtain r v where g: "getLayer TNone (Some (options (heap ?w1 l))) ?w1 = (r, v)"
      by (cases "getLayer TNone (Some (options (heap ?w1 l))) ?w1")
    from assms have "is_class l OGLXRLayer ?w1"
      by (rule heap_discD(14) [OF is_class_stable])
    then have "is_class l OGLXRLayer (snd (getLayer TNone (Some (options (heap ?w1 l))) ?w1))"
      by (rule getLayer_disc [OF is_class_stable])
    with g have v: "is_class l OGLXRLayer v" by simp
    then have v': "is_class l OGLXRLayer (log e v)" for e
      by (rule heap_discD(1) [OF is_class_stable])
    from getLayer_TNone [of "Some (options (heap ?w1 l))" ?w1] g
    have n: "as_XRCompositionLayer (case r of Inr r \<Rightarrow> r | Inl e \<Rightarrow> None) = None" by simp
    show ?thesis
      unfolding bindNativeLayerTo_def Let_def
      using n
      by (simp only: True if_True c classType_def lclass.case g) (cases r; simp add: 1 v v')
  qed
qed

lemma xr_onLayerDestroy_layers: "layers (snd (xr_onLayerDestroy n v)) = layers v"
  using xr_onLayerDestroy_disc [OF has_layers_stable(1), of "layers v" v n]
  by (simp add: has_layers_def)

lemma destroyNative_layers: "layers (destroyNative l v) = layers v"
  using destroyNative_disc [OF has_layers_stable(1), of "layers v" v l]
  by (simp add: has_layers_def)

lemma bindNativeLayerTo_layers: "layers (snd (bindNativeLayerTo l v)) = layers v"
  using bindNativeLayerTo_disc [OF has_layers_stable(1), of "layers v" v l]
  by (simp add: has_layers_def)

lemma call_onLayerDestroy_layers:
  "layers (snd (call_onLayerDestroy l False w)) =
     (if onLayerDestroy (heap w l) = Some RendererOnLayerDestroy
      then filter (\<lambda>e. l \<noteq> e) (layers w) else layers w)"
  by (simp add: call_onLayerDestroy_def onLayerDestroy_r_def Let_def xr_onLayerDestroy_layers
      split: option.splits dcb.splits)

lemma layer_destroy_layers:
  "layers (snd (layer_destroy l w)) =
     (if onLayerDestroy (heap w l) = Some RendererOnLayerDestroy
      then filter (\<lambda>e. l \<noteq> e) (layers w) else layers w)"
proof -
  obtain r v where c: "call_onLayerDestroy l False w = (r, v)"
    by (cases "call_onLayerDestroy l False w")
  with call_onLayerDestroy_ok [of l False w] have r: "r = Inr ()" by simp
  from call_onLayerDestroy_layers [of l w] c
  have "layers v = (if onLayerDestroy (heap w l) = Some RendererOnLayerDestroy
      then filter (\<lambda>e. l \<noteq> e) (layers w) else layers w)" by simp
  then show ?thesis
    by (simp add: layer_destroy_def c r andThen_def destroyNative_layers)
qed

lemma layer_destroy_step:
  assumes "reg_inv w"
  shows "reg_inv (snd (layer_destroy l w))"
    and "set (layers (snd (layer_destroy l w))) = set (layers w) - {l}"
proof -
  let ?w' = "snd (layer_destroy l w)"
  from assms have h: "heap_ok (set (layers w)) (objects w) w" by (simp add: reg_inv_def)
  have h': "heap_ok (set (layers w)) (objects w) ?w'"
    using heap_ok_stable(1,4) h by (rule layer_destroy_disc)
  have s: "set (layers ?w') = set (layers w) - {l}"
    using h by (auto simp: layer_destroy_layers heap_ok_def owned_def)
  have d: "distinct (layers ?w')"
    using assms by (simp add: layer_destroy_layers reg_inv_def)
  from h' s d assms show "reg_inv ?w'"
    by (auto simp: reg_inv_def heap_ok_def)
  from s show "set (layers ?w') = set (layers w) - {l}" .
qed

lemma registerLayer_step:
  assumes "reg_inv w" "l < objects w"
  shows "reg_inv (snd (registerLayer l w))"
    and "set (layers (snd (registerLayer l w))) =
           (case fst (registerLayer l w) of Inr n \<Rightarrow> insert l (set (layers w))
            | Inl x \<Rightarrow> set (layers w))"
proof -
  let ?w1 = "if l \<in> set (layers w) then w\<lparr>layers := remove1 l (layers w)\<rparr> else w"
  from assms have h: "heap_ok (set (layers w)) (objects w) w" and d: "distinct (layers w)"
    and k: "\<forall>x\<in>set (layers w). x < objects w"
    by (simp_all add: reg_inv_def)
  have l1: "layers ?w1 = remove1 l (layers w)" and h1: "heap ?w1 = heap w"
    by (simp_all add: remove1_idem)
  from h have ok1: "heap_ok (set (layers w)) (objects w) ?w1"
    by (simp add: heap_ok_def generic_ok_def owned_def)
  obtain r w2 where b: "bindNativeLayerTo l ?w1 = (r, w2)" by (cases "bindNativeLayerTo l ?w1")
  from bindNativeLayerTo_disc [OF heap_ok_stable(1) ok1, of l] b
  have ok2: "heap_ok (set (layers w)) (objects w) w2" by simp
  from bindNativeLayerTo_layers [of l ?w1] b l1
  have l2: "layers w2 = remove1 l (layers w)" by simp
  have conj: "reg_inv (snd (registerLayer l w)) \<and>
      set (layers (snd (registerLayer l w))) =
           (case fst (registerLayer l w) of Inr n \<Rightarrow> insert l (set (layers w))
            | Inl x \<Rightarrow> set (layers w))"
  proof (cases r)
    case (Inl e)
    then have res: "registerLayer l w = (Inl e, w2)"
      by (simp add: registerLayer_def Let_def b andThen_def)
    have "lclass (heap w l) \<noteq> OGLQuadLayer"
    proof
      assume "lclass (heap w l) = OGLQuadLayer"
      then have "lclass (heap ?w1 l) = OGLQuadLayer" by simp
      from bindNativeLayerTo_quad_ok [OF this] b Inl show False by simp
    qed
    with h have "l \<notin> set (layers w)" by (auto simp: heap_ok_def owned_def)
    with l2 have "layers w2 = layers w" by (simp add: remove1_idem)
    with ok2 d k show ?thesis by (simp add: res reg_inv_def heap_ok_def)
  next
    case (Inr x)
    let ?w4 = "(upd l (\<lambda>L. L\<lparr>onLayerDestroy := Some RendererOnLayerDestroy\<rparr>) w2)
                 \<lparr>layers := l # layers w2\<rparr>"
    from Inr have res: "registerLayer l w = (Inr (length (layers ?w4)), ?w4)"
      by (simp add: registerLayer_def Let_def b andThen_def ok_def upd_def)
    have q: "lclass (heap w l) = OGLQuadLayer"
    proof (rule ccontr)
      assume "lclass (heap w l) \<noteq> OGLQuadLayer"
      then have "lclass (heap w l) = OGLXRLayer" by (cases "lclass (heap w l)") simp_all
      with h have "is_class l OGLXRLayer ?w1"
        by (simp add: is_class_def heap_ok_def generic_ok_def)
      from bindNativeLayerTo_generic_throws [OF this] b Inr show False by simp
    qed
    then have "is_class l OGLQuadLayer ?w1" by (simp add: is_class_def)
    from bindNativeLayerTo_disc [OF is_class_stable this, of l] b
    have q2: "lclass (heap w2 l) = OGLQuadLayer" by (simp add: is_class_def)
    from d have s: "set (l # remove1 l (layers w)) = insert l (set (layers w))"
      by auto
    from d have d4: "distinct (l # remove1 l (layers w))" by simp
    from ok2 q2 have "heap_ok (insert l (set (layers w))) (objects w) ?w4"
      by (auto simp: heap_ok_def generic_ok_def owned_def upd_def)
    with d4 s k assms(2) l2 ok2 show ?thesis
      by (simp add: res reg_inv_def heap_ok_def upd_def)
  qed
  from conj show "reg_inv (snd (registerLayer l w))" ..
  from conj show "set (layers (snd (registerLayer l w))) =
           (case fst (registerLayer l w) of Inr n \<Rightarrow> insert l (set (layers w))
            | Inl x \<Rightarrow> set (layers w))" ..
qed

lemma registry_kept_stable:
  "heap_disc (registry_kept c k)" "loop_stable (registry_kept c k)"
  "sess_stable (registry_kept c k)"
  by (auto simp: heap_disc_def loop_stable_def sess_stable_def
      registry_kept_def heap_ok_def generic_ok_def owned_def log_def upd_def)

lemma other_step:
  assumes "reg_inv w" "\<not> layer_call e" "step e w = Some w'"
  shows "reg_inv w'" and "layers w' = layers w"
proof -
  from assms(1) have 0: "registry_kept (layers w) (objects w) w"
    by (simp add: registry_kept_def reg_inv_def)
  have "registry_kept (layers w) (objects w) w'"
    using step_pres_other [OF registry_kept_stable(3,2)
        callee_pres_layer [OF registry_kept_stable(1,2)]
        upd_pres_layer [OF registry_kept_stable(1)] assms(2,3) 0] .
  with assms(1) show "reg_inv w'" and "layers w' = layers w"
    by (simp_all add: registry_kept_def reg_inv_def heap_ok_def)
qed

lemma new_layer_step:
  assumes "reg_inv w"
  shows "reg_inv (snd (new_layer c opt w))" and "layers (snd (new_layer c opt w)) = layers w"
  using assms
  by (auto simp: reg_inv_def heap_ok_def generic_ok_def owned_def new_layer_def)

lemma step_registry:
  assumes "reg_inv w" "step e w = Some w'"
  shows "reg_inv w' \<and> set (layers w') = track e w (set (layers w))"
proof (cases "layer_call e")
  case False
  from other_step [OF assms(1) False assms(2)] False show ?thesis
    by (cases e) (simp_all add: track_def layer_call_def)
next
  case True
  then show ?thesis
  proof (cases e)
    case (NewLayer c opt)
    with assms new_layer_step [OF assms(1), of c opt] show ?thesis
      by (auto simp: step_def track_def)
  next
    case (CallRegister l)
    with assms(2) have 1: "l < objects w" and 2: "w' = snd (registerLayer l w)"
      by (auto simp: step_def split: if_splits)
    from registerLayer_step [OF assms(1) 1] show ?thesis
      by (simp add: 2 CallRegister track_def)
  next
    case (CallDestroy l)
    with assms(2) have 2: "w' = snd (layer_destroy l w)"
      by (auto simp: step_def split: if_splits)
    from layer_destroy_step [OF assms(1), of l] show ?thesis
      by (simp add: 2 CallDestroy track_def)
  qed (simp_all add: layer_call_def)
qed

lemma run_registry:
  "reg_inv w \<Longrightarrow> run es w = Some w' \<Longrightarrow>
   reg_inv w' \<and> set (layers w') = registered es w (set (layers w))"
proof (induction es arbitrary: w)
  case Nil
  then show ?case by simp
next
  case (Cons e es)
  from Cons.prems(2) obtain w1 where 1: "step e w = Some w1" and 2: "run es w1 = Some w'"
    by (auto split: option.splits)
  from step_registry [OF Cons.prems(1) 1]
  have 3: "reg_inv w1" and 4: "set (layers w1) = track e w (set (layers w))" by simp_all
  from Cons.IH [OF 3 2] show ?case by (simp add: 1 4)
qed

lemma reg_inv_initial: "reg_inv initial"
  by (simp add: reg_inv_def heap_ok_def generic_ok_def initial_def)

text \<open>
  C6. After any sequence of calls and host events on a new renderer the registry holds no
  layer twice, and holds exactly the layers that a \<open>registerLayer\<close> call that returned has
  registered and no \<open>destroy\<close> call has removed since: its length is the number of those
  layers. Session starts and losses, frames, \<open>bindLayer\<close> and \<open>update\<close> calls occur in the
  sequence and do not count.
\<close>

theorem registry_counts_registered:
  assumes "run es initial = Some w"
  shows "distinct (layers w) \<and> set (layers w) = registered es initial {} \<and>
         length (layers w) = card (registered es initial {})"
proof -
  from run_registry [OF reg_inv_initial assms]
  have 1: "reg_inv w" and 2: "set (layers w) = registered es initial {}"
    by (simp_all add: initial_def)
  from 1 have d: "distinct (layers w)" by (simp add: reg_inv_def)
  from d 2 distinct_card [OF d] show ?thesis by simp
qed

lemma registry_demo_layers:
  "\<exists>w. run registry_demo initial = Some w \<and> layers w = [2]"
  by (simp add: registry_demo_def step_def evals plain_opts_def)

lemma registry_demo_registered: "registered registry_demo initial {} = {2}"
  by (auto simp: registry_demo_def step_def track_def evals plain_opts_def)

theorem registry_counts_registered_witness:
  "(\<exists>w. run registry_demo initial = Some w \<and> layers w = [2] \<and>
        length (layers w) = card (registered registry_demo initial {})) \<and>
   registered registry_demo initial {} = {2}"
proof -
  from registry_demo_layers obtain w
    where r: "run registry_demo initial = Some w" and l: "layers w = [2]" by blast
  from registry_counts_registered [OF r] r l registry_demo_registered show ?thesis by simp
qed

section \<open>One request at a time\<close>

lemma no_live:
  "(\<forall>p\<in>set xs. h \<noteq> Some (fst p)) \<Longrightarrow> filter (\<lambda>p. h = Some (fst p)) xs = []"
  by (simp add: filter_empty_conv)

lemma loop_inv_cong:
  assumes "winPending v = winPending w" "sessPending v = sessPending w"
    "hostLive v = hostLive w" "session v = session w" "clearLoopDel v = clearLoopDel w"
    "endQueue v = endQueue w"
  shows "loop_inv v = loop_inv w"
  by (simp add: loop_inv_def outstanding_def assms)

lemma quiet_inv: "quiet w \<Longrightarrow> loop_inv w"
  by (simp add: quiet_def loop_inv_def outstanding_def no_live)

lemma loop_inv_outstanding: "loop_inv w \<Longrightarrow> outstanding w \<le> 1"
  by (simp add: loop_inv_def)

lemma quiet_outstanding: "quiet w \<Longrightarrow> outstanding w = 0"
  by (simp add: quiet_def outstanding_def no_live)

lemma clearLoop_quiet:
  assumes "loop_inv w" shows "quiet (clearLoop w)"
proof (cases "clearLoopDel w")
  case None
  with assms have "winPending w = []" by (cases "winPending w") (auto simp: loop_inv_def)
  with assms None show ?thesis
    by (auto simp: clearLoop_def quiet_def loop_inv_def)
next
  case (Some c)
  show ?thesis
  proof (cases c)
    case (WindowCanceller i)
    with assms Some show ?thesis
      by (auto simp: clearLoop_def run_canceller_def log_def quiet_def loop_inv_def
          filter_empty_conv)
  next
    case (SessionCanceller i)
    with assms Some have "winPending w = []"
      by (cases "winPending w") (auto simp: loop_inv_def)
    with assms Some SessionCanceller show ?thesis
      by (cases "session w")
         (auto simp: clearLoop_def run_canceller_def log_def quiet_def loop_inv_def)
  qed
qed

lemma clearLoop_inv: "loop_inv w \<Longrightarrow> loop_inv (clearLoop w)"
  by (rule quiet_inv) (rule clearLoop_quiet)

lemma quiet_request:
  assumes "quiet v"
  shows "loop_inv (log e (v\<lparr>fresh := k, winPending := winPending v @ [i],
                           clearLoopDel := Some (WindowCanceller i)\<rparr>))"
    and "session v = Some s \<Longrightarrow>
         loop_inv (log e (v\<lparr>fresh := k, sessPending := sessPending v @ [(s, i, cb)],
                           clearLoopDel := Some (SessionCanceller i)\<rparr>))"
  using assms
  by (simp_all add: quiet_def loop_inv_def outstanding_def log_def no_live)

lemma attachLoop_inv:
  assumes "loop_inv w" shows "loop_inv (snd (attachLoop w))"
proof -
  from assms have q: "quiet (clearLoop w)" by (rule clearLoop_quiet)
  show ?thesis
  proof (cases "session w")
    case None
    with quiet_request(1) [OF q] show ?thesis by (simp add: attachLoop_eq)
  next
    case (Some s)
    then have "session (clearLoop w) = Some s" by (simp add: clearLoop_fields)
    from quiet_request(2) [OF q this] Some show ?thesis by (simp add: attachLoop_eq)
  qed
qed

lemma loop_inv_disc: "heap_disc loop_inv" "layers_indep loop_inv"
  by (auto simp: heap_disc_def layers_indep_def loop_inv_def outstanding_def log_def upd_def)

lemma ended_inv_disc: "heap_disc ended_inv" "layers_indep ended_inv"
  by (auto simp: heap_disc_def layers_indep_def ended_inv_def loop_inv_def
      outstanding_def log_def upd_def)

lemma callee_pres_disc:
  assumes "heap_disc P" "\<And>v. P v \<Longrightarrow> P (clearLoop v)" "\<And>v. P v \<Longrightarrow> P (snd (attachLoop v))"
  shows "callee_pres P"
  using assms
  by (simp add: callee_pres_def heap_discD bindLayer_disc getLayer_disc bindNativeLayerTo_disc)

lemma loop_inv_callee: "callee_pres loop_inv"
  by (rule callee_pres_disc [OF loop_inv_disc(1)]) (simp_all add: clearLoop_inv attachLoop_inv)

lemma clearLoop_hostLive: "hostLive (clearLoop w) = hostLive w"
  by (simp add: clearLoop_def run_canceller_def log_def split: option.splits canceller.splits)

lemma attachLoop_hostLive: "hostLive (snd (attachLoop w)) = hostLive w"
  by (simp add: attachLoop_eq log_def clearLoop_hostLive split: option.splits)

lemma ended_inv_callee: "callee_pres ended_inv"
  by (rule callee_pres_disc [OF ended_inv_disc(1)])
     (simp_all add: ended_inv_def clearLoop_inv attachLoop_inv clearLoop_hostLive
        attachLoop_hostLive)

lemma tick_presD:
  assumes "tick_pres P"
  shows "P v \<Longrightarrow> P (log e v)" "P v \<Longrightarrow> P (snd (attachLoop v))"
    "P (w\<lparr>rafCallbacks := x1\<rparr>) = P w" "P (w\<lparr>calbackID := x2\<rparr>) = P w"
    "P (w\<lparr>lastXRFrame := x3\<rparr>) = P w"
  using assms by (simp_all add: tick_pres_def)

lemma requestAnimationFrame_kept:
  assumes "tick_pres P" "P w" shows "P (snd (requestAnimationFrame c w))"
  using assms
  by (cases "clearLoopDel w")
     (simp_all add: requestAnimationFrame_attached requestAnimationFrame_detached tick_presD)

lemma run_action_kept:
  assumes "tick_pres P" "P w" shows "P (snd (run_action a w))"
  using assms
  by (cases a)
     (simp_all add: run_action_def andThen_ok [OF requestAnimationFrame_ok]
        requestAnimationFrame_kept cancelAnimationFrame_def tick_presD)

lemma call_cbk_kept:
  assumes "tick_pres P" "P w" shows "P (snd (call_cbk c t f w))"
proof (cases c)
  case (Cb tag body)
  from assms have "P (log (Invoke tag t f) w)" by (simp add: tick_presD)
  then show ?thesis
    unfolding Cb call_cbk_def cbk.case
    by (rule forEach_pres [where P = P, rotated]) (rule run_action_kept [OF assms(1)])
qed

lemma internalLoop_kept:
  assumes "tick_pres P" "P w" shows "P (snd (internalLoop t f w))"
  unfolding internalLoop_def Let_def
proof (rule andThen_pres [where P = P])
  from assms have "P (w\<lparr>rafCallbacks := []\<rparr>)" by (simp add: tick_presD)
  then show "P (snd (forEach (\<lambda>c. call_cbk c t f) (map snd (rafCallbacks w))
      (w\<lparr>rafCallbacks := []\<rparr>)))"
    by (rule forEach_pres [where P = P, rotated]) (rule call_cbk_kept [OF assms(1)])
next
  fix a v assume "P v"
  with assms(1) show "P (snd (attachLoop v))" by (rule tick_presD)
qed

lemma call_frame_cb_kept:
  assumes "tick_pres P" "P w" shows "P (snd (call_frame_cb c t f w))"
  using assms
  by (cases c) (simp_all add: call_frame_cb_def internalLoop_kept call_cbk_kept)

lemma xr_frame_wrapper_kept:
  assumes "tick_pres P" "P w" shows "P (snd (xr_frame_wrapper c t f w))"
  using assms
  by (simp add: xr_frame_wrapper_def andThen_ok [OF call_frame_cb_ok] call_frame_cb_kept
      tick_presD)

lemma loop_inv_tick: "tick_pres loop_inv"
proof -
  have 1: "loop_inv (log e v)" if "loop_inv v" for e v
    using that by (simp add: loop_inv_def outstanding_def log_def)
  have 2: "loop_inv (w\<lparr>rafCallbacks := x\<rparr>) = loop_inv w"
    "loop_inv (w\<lparr>calbackID := y\<rparr>) = loop_inv w"
    "loop_inv (w\<lparr>lastXRFrame := z\<rparr>) = loop_inv w" for w x y z
    by (simp_all add: loop_inv_def outstanding_def)
  show ?thesis by (simp add: tick_pres_def attachLoop_inv 1 2)
qed

lemma filter_filter_le: "length (filter (\<lambda>x. R x \<and> P x) xs) \<le> length (filter P xs)"
  by (induction xs) simp_all

lemma outstanding_fewer:
  "outstanding (w\<lparr>winPending := filter Q (winPending w)\<rparr>) \<le> outstanding w"
  "outstanding (w\<lparr>sessPending := filter R (sessPending w)\<rparr>) \<le> outstanding w"
  by (simp_all add: outstanding_def filter_filter_le)

lemma loop_inv_fewer:
  assumes "loop_inv w"
  shows "loop_inv (w\<lparr>winPending := filter Q (winPending w)\<rparr>)"
    and "loop_inv (w\<lparr>sessPending := filter R (sessPending w)\<rparr>)"
proof -
  from assms outstanding_fewer(1) [where w = w and Q = Q]
  show "loop_inv (w\<lparr>winPending := filter Q (winPending w)\<rparr>)"
    by (simp add: loop_inv_def)
  from assms outstanding_fewer(2) [where w = w and R = R]
  show "loop_inv (w\<lparr>sessPending := filter R (sessPending w)\<rparr>)"
    by (simp add: loop_inv_def)
qed

lemma windowFrame_inv:
  assumes "windowFrame i t w = Some w'" "loop_inv w" shows "loop_inv w'"
proof -
  from assms(1) have w': "w' = report (internalLoop t None
      (w\<lparr>winPending := filter (\<lambda>j. j \<noteq> i) (winPending w)\<rparr>))"
    by (simp add: windowFrame_def split: if_splits)
  from assms(2) have "loop_inv (w\<lparr>winPending := filter (\<lambda>j. j \<noteq> i) (winPending w)\<rparr>)"
    by (rule loop_inv_fewer)
  with loop_inv_tick have "loop_inv (snd (internalLoop t None
      (w\<lparr>winPending := filter (\<lambda>j. j \<noteq> i) (winPending w)\<rparr>)))"
    by (rule internalLoop_kept)
  with loop_inv_callee show ?thesis unfolding w' by (rule report_pres)
qed

lemma sessionFrame_inv:
  assumes "sessionFrame i t f w = Some w'" "loop_inv w" shows "loop_inv w'"
proof -
  from assms(1) obtain c v where w': "w' = report (xr_frame_wrapper c t f v)"
    and v: "v = w\<lparr>sessPending := filter (\<lambda>p. \<not> (fst p = the (hostLive w) \<and> fst (snd p) = i))
                (sessPending w)\<rparr>"
    by (auto simp: sessionFrame_def split: option.splits)
  from assms(2) have "loop_inv v" unfolding v by (rule loop_inv_fewer)
  with loop_inv_tick have "loop_inv (snd (xr_frame_wrapper c t f v))"
    by (rule xr_frame_wrapper_kept)
  with loop_inv_callee show ?thesis unfolding w' by (rule report_pres)
qed

lemma clear_loop_fields:
  "winPending (clear w) = winPending w" "sessPending (clear w) = sessPending w"
  "hostLive (clear w) = hostLive w" "clearLoopDel (clear w) = clearLoopDel w"
  "endQueue (clear w) = endQueue w" "session (clear w) = None"
  by (cases "session w"; simp add: clear_inactive clear_active)+

lemma onInputChanged_eq: "onInputChanged w = log (Dispatch XrInputSourcesChange) w"
  by (simp add: onInputChanged_def dispatchEvent_def)

lemma ended_inv_clear: "ended_inv w \<Longrightarrow> ended_inv (clear w)"
  by (simp add: ended_inv_def loop_inv_def outstanding_def clear_loop_fields)

lemma onEnd_ended: "ended_inv w \<Longrightarrow> ended_inv (onEnd w)"
  unfolding onEnd_def
  by (intro dispatchEvent_pres [OF ended_inv_callee] onInputChanged_pres [OF ended_inv_callee]
      ended_inv_clear)

lemma call_fn_ended: "ended_inv w \<Longrightarrow> ended_inv (call_fn f w)"
  by (cases "root f")
     (simp_all add: call_fn_def onEnd_ended onInputChanged_pres [OF ended_inv_callee])

lemma foldl_call_fn_ended: "ended_inv w \<Longrightarrow> ended_inv (foldl (\<lambda>v f. call_fn f v) w fs)"
  by (induction fs arbitrary: w) (simp_all add: call_fn_ended)

lemma fire_ended: "ended_inv w \<Longrightarrow> ended_inv (fire s ty w)"
  by (simp add: fire_def foldl_call_fn_ended)

lemma hostEnd_inv:
  assumes "hostEnd w = Some w'" "loop_inv w" shows "loop_inv w'"
proof -
  from assms(1) obtain s where w': "w' = fire s ''end'' (w\<lparr>hostLive := None\<rparr>)"
    by (auto simp: hostEnd_def split: option.splits)
  from assms(2) have "ended_inv (w\<lparr>hostLive := None\<rparr>)"
    by (simp add: ended_inv_def loop_inv_def outstanding_def)
  then have "ended_inv w'" unfolding w' by (rule fire_ended)
  then show ?thesis by (simp add: ended_inv_def)
qed

lemma deliverEnd_inv:
  assumes "deliverEnd w = Some w'" "loop_inv w" shows "loop_inv w'"
proof -
  from assms(1) obtain s q where q: "endQueue w = s # q"
    and w': "w' = fire s ''end'' (w\<lparr>endQueue := q\<rparr>)"
    by (auto simp: deliverEnd_def split: list.splits)
  from assms(2) q have "ended_inv (w\<lparr>endQueue := q\<rparr>)"
    by (simp add: ended_inv_def loop_inv_def outstanding_def)
  then have "ended_inv w'" unfolding w' by (rule fire_ended)
  then show ?thesis by (simp add: ended_inv_def)
qed

lemma xr_end_inv:
  assumes "loop_inv w" shows "loop_inv (xr_end w)"
proof (cases "session w")
  case None
  with assms show ?thesis by (simp add: xr_end_def)
next
  case (Some s)
  show ?thesis
  proof (cases "hostLive w = Some s")
    case True
    with assms Some show ?thesis
      by (simp add: xr_end_def host_session_end_def onInputChanged_eq log_def Let_def
          clear_loop_fields loop_inv_def outstanding_def)
  next
    case False
    with assms Some have "\<forall>p\<in>set (sessPending w). hostLive w \<noteq> Some (fst p)"
      by (auto simp: loop_inv_def)
    with assms Some False show ?thesis
      by (simp add: xr_end_def host_session_end_def onInputChanged_eq log_def Let_def
          clear_loop_fields loop_inv_def outstanding_def no_live)
  qed
qed

lemma fresh_sess_inv: "fresh_sess s w \<Longrightarrow> loop_inv w"
proof -
  assume a: "fresh_sess s w"
  then have "\<forall>p\<in>set (sessPending w). hostLive w \<noteq> Some (fst p)"
    by (auto simp: fresh_sess_def)
  with a show ?thesis
    by (simp add: fresh_sess_def loop_inv_def outstanding_def no_live)
qed

lemma granted_fresh:
  assumes "loop_inv w" "hostLive w = None" "endQueue w = []" "s \<notin> fst ` set (sessPending w)"
  shows "fresh_sess s (log e (w\<lparr>hostLive := Some s, layersSupport := b\<rparr>))"
  using assms
  by (auto simp: fresh_sess_def loop_inv_def outstanding_def log_def)

lemma init_inv:
  assumes "fresh_sess s w" shows "loop_inv (init s sp w)"
proof -
  let ?w0 = "if session w \<noteq> None then clear w else w"
  from assms have 0: "fresh_sess s ?w0" by (simp add: fresh_sess_def clear_loop_fields)
  have "fresh_sess s (snd (bind_fn g (addEventListener s ''end'' f
      (snd (bind_fn h (?w0\<lparr>space := Some sp, session := Some s\<rparr>))))))" for f g h
    using 0 by (simp add: fresh_sess_def bind_fn_def addEventListener_def)
  then have "fresh_sess s (addEventListener s ''inputsourceschange'' f2
      (snd (bind_fn g (addEventListener s ''end'' f
      (snd (bind_fn h (?w0\<lparr>space := Some sp, session := Some s\<rparr>)))))))" for f f2 g h
    by (simp add: fresh_sess_def addEventListener_def)
  then have "loop_inv (addEventListener s ''inputsourceschange'' f2
      (snd (bind_fn g (addEventListener s ''end'' f
      (snd (bind_fn h (?w0\<lparr>space := Some sp, session := Some s\<rparr>)))))))" for f f2 g h
    by (rule fresh_sess_inv)
  then show ?thesis
    unfolding init_def Let_def
    by (simp add: split_def dispatchEvent_pres [OF loop_inv_callee])
qed

lemma requestSession_settle_inv:
  assumes "may_settle out w" "loop_inv w" shows "loop_inv (snd (requestSession_settle out w))"
proof (cases out)
  case SessionDeclined
  with assms show ?thesis by (simp add: requestSession_settle_def)
next
  case (SpaceDeclined s b)
  with assms have "fresh_sess s
      (log (HostRequestReferenceSpace s) (w\<lparr>hostLive := Some s, layersSupport := b\<rparr>))"
    by (intro granted_fresh) (simp_all add: may_settle_def)
  then show ?thesis
    by (simp add: SpaceDeclined requestSession_settle_def fresh_sess_inv)
next
  case (Granted s b sp)
  with assms have "fresh_sess s
      (log (HostRequestReferenceSpace s) (w\<lparr>hostLive := Some s, layersSupport := b\<rparr>))"
    by (intro granted_fresh) (simp_all add: may_settle_def)
  then show ?thesis
    by (simp add: Granted requestSession_settle_def init_inv)
qed

lemma requestXR_settle_inv:
  assumes "may_settle out w" "loop_inv w" shows "loop_inv (snd (requestXR_settle out w))"
  using assms
  by (simp add: requestXR_settle_result attachLoop_inv requestSession_settle_inv)

lemma requestSession_begin_inv: "loop_inv w \<Longrightarrow> loop_inv (requestSession_begin w)"
  by (simp add: requestSession_begin_def xr_end_inv callee_presD(1) [OF loop_inv_callee])

lemma requestXR_enter_inv: "loop_inv w \<Longrightarrow> loop_inv (snd (requestXR_enter c w))"
  by (simp add: requestXR_enter_def Let_def requestSession_begin_inv clearLoop_inv
      callee_presD(1) [OF loop_inv_callee])

lemma new_layer_inv: "loop_inv w \<Longrightarrow> loop_inv (snd (new_layer c opt w))"
  by (simp add: new_layer_def loop_inv_def outstanding_def)

lemma step_inv:
  assumes "step e w = Some w'" "loop_inv w" shows "loop_inv w'"
proof (cases e)
  case (CallRaf c)
  with assms show ?thesis
    by (auto simp: step_def requestAnimationFrame_kept [OF loop_inv_tick])
next
  case (CallCancel i)
  with assms show ?thesis
    by (auto simp: step_def cancelAnimationFrame_def tick_presD [OF loop_inv_tick])
next
  case (WindowFrame i t)
  with assms(1) have "windowFrame i t w = Some w'" by (simp add: step_def)
  then show ?thesis using assms(2) by (rule windowFrame_inv)
next
  case (SessionFrame i t f)
  with assms(1) have "sessionFrame i t f w = Some w'" by (simp add: step_def)
  then show ?thesis using assms(2) by (rule sessionFrame_inv)
next
  case (CallRequestXR c)
  with assms show ?thesis by (auto simp: step_def requestXR_enter_inv)
next
  case AfterCompat
  with assms show ?thesis
    by (auto simp: step_def requestSession_begin_inv clearLoop_inv)
next
  case (Settle out)
  with assms show ?thesis
    by (auto simp: step_def requestXR_settle_inv split: if_splits)
next
  case HostEnd
  with assms(1) have "hostEnd w = Some w'" by (simp add: step_def)
  then show ?thesis using assms(2) by (rule hostEnd_inv)
next
  case CallEnd
  with assms show ?thesis by (auto simp: step_def xr_end_inv)
next
  case DeliverEnd
  with assms(1) have "deliverEnd w = Some w'" by (simp add: step_def)
  then show ?thesis using assms(2) by (rule deliverEnd_inv)
next
  case (NewLayer c opt)
  with assms show ?thesis by (auto simp: step_def new_layer_inv)
next
  case (CallRegister l)
  with assms show ?thesis
    by (auto simp: step_def registerLayer_disc [OF loop_inv_disc] split: if_splits)
next
  case (CallDestroy l)
  with assms show ?thesis
    by (auto simp: step_def layer_destroy_disc [OF loop_inv_disc] split: if_splits)
next
  case (CallBind l n)
  with assms show ?thesis
    by (auto simp: step_def bindLayer_disc [OF loop_inv_disc(1)] split: if_splits)
next
  case (CallUpdate l)
  with assms show ?thesis
    by (auto simp: step_def layer_update_disc [OF loop_inv_disc(1)] split: if_splits)
next
  case (CallNeedUpdate l)
  with assms show ?thesis
    by (auto simp: step_def needUpdateTransform_disc [OF loop_inv_disc(1)] split: if_splits)
qed

lemma run_inv: "run es w = Some w' \<Longrightarrow> loop_inv w \<Longrightarrow> loop_inv w'"
proof (induction es arbitrary: w)
  case Nil
  then show ?case by simp
next
  case (Cons e es)
  from Cons.prems(1) obtain w1 where 1: "step e w = Some w1" and 2: "run es w1 = Some w'"
    by (auto split: option.splits)
  from step_inv [OF 1 Cons.prems(2)] have "loop_inv w1" .
  with Cons.IH [OF 2] show ?case .
qed

lemma loop_inv_initial: "loop_inv initial"
  by (simp add: loop_inv_def outstanding_def initial_def)

lemma reachable_inv: "reachable w \<Longrightarrow> loop_inv w"
  using run_inv loop_inv_initial by (auto simp: reachable_def)

lemma layers_started_run:
  "run [CallRequestXR True, Settle (Granted 50 True 60)] initial = Some layers_started"
proof -
  let ?w1 = "log HostRequestSession (clearLoop (log MakeXRCompatible initial))"
  have s: "session initial = None" by (simp add: initial_def)
  have 1: "requestXR_enter True initial = (Inr Negotiating, ?w1)"
    using s by (rule requestXR_enter_inactive)
  have 2: "may_settle (Granted 50 True 60) ?w1"
    by (simp add: may_settle_def log_def clearLoop_def initial_def)
  from layers_started_reached
  have 3: "requestXR_settle (Granted 50 True 60) ?w1 = (Inr (), layers_started)"
    by (simp add: requestXR_def 1 andThen_def)
  show ?thesis by (simp add: step_def 1 2 3)
qed

lemma layers_started_reachable: "reachable layers_started"
  unfolding reachable_def using layers_started_run by blast

text \<open>
  C3 (as amended). In every reachable state at most one frame request can still fire: the
  requests pending on the display and on the session that is live on the host number at
  most one. In such a state \<open>_clearLoop\<close> calls the stored handle, which leaves no request
  that can fire, and \<open>_attachLoop\<close> does that first and then issues exactly one request,
  on the session if one is attached and on the display otherwise, whose handle it stores.
  The handle of a display request cancels it; the handle of a session request cancels it
  only while a session is attached (\<open>this.session?.cancelAnimationFrame\<close>), and cancels
  nothing once \<open>clear\<close> has detached the session, as it has when the loop is re-attached
  after a session loss: the request of the lost session is abandoned, not cancelled.
\<close>

theorem one_request_at_a_time:
  assumes "reachable w"
  shows "outstanding w \<le> 1 \<and>
         outstanding (clearLoop w) = 0 \<and>
         trace (clearLoop w) = trace w @ cancel_trace w \<and>
         fst (attachLoop w) = Inr () \<and>
         trace (snd (attachLoop w)) = trace w @ cancel_trace w @ [request_event w] \<and>
         outstanding (snd (attachLoop w)) \<le> 1 \<and>
         has_pending_request (snd (attachLoop w))"
proof -
  from assms have i: "loop_inv w" by (rule reachable_inv)
  then have 1: "outstanding w \<le> 1" by (rule loop_inv_outstanding)
  from i have 2: "outstanding (clearLoop w) = 0"
    by (intro quiet_outstanding clearLoop_quiet)
  from i have 3: "outstanding (snd (attachLoop w)) \<le> 1"
    by (intro loop_inv_outstanding attachLoop_inv)
  from 1 2 3 show ?thesis
    by (simp add: clearLoop_fields attachLoop_fields attachLoop_ok attachLoop_pending)
qed

theorem one_request_at_a_time_witness:
  "reachable layers_started \<and> outstanding layers_started = 1 \<and>
   outstanding (clearLoop layers_started) = 0 \<and>
   trace (snd (attachLoop layers_started)) =
     trace layers_started @ [SessionCancel 50 8, SessionRequest 50 9]"
  using one_request_at_a_time [OF layers_started_reachable]
  by (simp add: layers_started_reachable outstanding_def layers_started_fields
      cancel_trace_def request_event_def)

text \<open>
  C3 as stated fails at a session loss. With session \<open>50\<close> running and its request \<open>8\<close>
  pending, the host ends the session: \<open>onEnd\<close> clears the session before \<open>xrend\<close> is
  dispatched, so the handle called by \<open>onSessionLost\<close> finds no session and cancels
  nothing. The display request \<open>9\<close> is issued while request \<open>8\<close> has been neither fired nor
  cancelled, and two requests are on record afterwards.
\<close>

theorem session_loss_cancels_nothing:
  "reachable layers_started \<and> sessPending layers_started = [(50, 8, InternalLoop)] \<and>
   (\<exists>w'. step HostEnd layers_started = Some w' \<and>
      trace w' = trace layers_started @
        [Destroyed (XRProjectionLayer 6), TargetDestroyed 7, Destroyed (XRProjectionLayer 6),
         Dispatch XrInputSourcesChange, Dispatch XrEnd, WindowRequest 9,
         Warn ''XR Session end''] \<and>
      sessPending w' = [(50, 8, InternalLoop)] \<and> winPending w' = [9])"
proof -
  have "\<exists>w'. step HostEnd layers_started = Some w' \<and>
      trace w' = trace layers_started @
        [Destroyed (XRProjectionLayer 6), TargetDestroyed 7, Destroyed (XRProjectionLayer 6),
         Dispatch XrInputSourcesChange, Dispatch XrEnd, WindowRequest 9,
         Warn ''XR Session end''] \<and>
      sessPending w' = [(50, 8, InternalLoop)] \<and> winPending w' = [9]"
    by (simp add: step_def hostEnd_def fire_def call_fn_def layers_started_def comp_of_def evals)
  with layers_started_reachable show ?thesis by (simp add: layers_started_fields)
qed

end
